theory Spec2Isabelle
  imports Complex_Main "HOL-Library.Sublist"
begin

section \<open>Python values used by script.py\<close>

text \<open>
  A Python \<open>str\<close> is a sequence of Unicode code points, so it is modelled as a list of
  code points. \<open>str_lit\<close> turns a literal of the source into such a list. Durations
  (\<open>float\<close> seconds) are idealised as reals: the rounding of a float product is not
  modelled.
\<close>

type_synonym pystr = "nat list"

definition str_lit :: "string \<Rightarrow> pystr" where
  "str_lit s = map of_char s"

text \<open>
  The code points for which \<open>str.isspace()\<close> holds; \<open>str.split()\<close> without argument
  and \<open>str.strip()\<close> without argument use exactly this set.
\<close>

definition py_isspace :: "nat \<Rightarrow> bool" where
  "py_isspace c \<longleftrightarrow>
     (9 \<le> c \<and> c \<le> 13) \<or> (28 \<le> c \<and> c \<le> 32) \<or> c = 133 \<or> c = 160 \<or> c = 5760 \<or>
     (8192 \<le> c \<and> c \<le> 8202) \<or> c = 8232 \<or> c = 8233 \<or> c = 8239 \<or> c = 8287 \<or> c = 12288"

text \<open>
  \<open>s.split()\<close>: skip whitespace, take the maximal run of non-whitespace as the next
  word, repeat until the string is used up.
\<close>

function py_split :: "pystr \<Rightarrow> pystr list" where
  "py_split s =
     (case dropWhile py_isspace s of
        [] \<Rightarrow> []
      | c # cs \<Rightarrow>
          takeWhile (\<lambda>x. \<not> py_isspace x) (c # cs)
            # py_split (dropWhile (\<lambda>x. \<not> py_isspace x) (c # cs)))"
  by pat_completeness auto
termination
proof (relation "measure length", goal_cases)
  case 1
  show ?case by simp
next
  case (2 s c cs)
  have "length (dropWhile (\<lambda>x. \<not> py_isspace x) (c # cs)) \<le> length (c # cs)"
    by (rule length_dropWhile_le)
  moreover have "\<not> py_isspace c"
    using 2 hd_dropWhile [of py_isspace s] by (metis list.sel(1) list.distinct(1))
  ultimately have "length (dropWhile (\<lambda>x. \<not> py_isspace x) (c # cs)) \<le> length cs"
    using length_dropWhile_le [of "\<lambda>x. \<not> py_isspace x" cs] by simp
  moreover have "length (c # cs) \<le> length s"
    using 2 length_dropWhile_le [of py_isspace s] by simp
  ultimately show ?case by simp
qed

declare py_split.simps [simp del]

text \<open>\<open>sep.join(words)\<close>.\<close>

fun py_join :: "pystr \<Rightarrow> pystr list \<Rightarrow> pystr" where
  "py_join sep [] = []"
| "py_join sep [w] = w"
| "py_join sep (w # v # ws) = w @ sep @ py_join sep (v # ws)"

text \<open>\<open>s.strip()\<close>: drop the whitespace at the left end and at the right end.\<close>

definition py_strip :: "pystr \<Rightarrow> pystr" where
  "py_strip s = rev (dropWhile py_isspace (rev (dropWhile py_isspace s)))"

text \<open>A string in which no two neighbouring code points are both whitespace.\<close>

fun single_spaced :: "pystr \<Rightarrow> bool" where
  "single_spaced (a # b # r) \<longleftrightarrow> \<not> (py_isspace a \<and> py_isspace b) \<and> single_spaced (b # r)"
| "single_spaced _ \<longleftrightarrow> True"


text \<open>
  The words of the specification for the card name, "all internal whitespace runs
  collapsed to single spaces (and no surrounding whitespace)", written down on their
  own, not taken from the source: \<open>collapse_runs\<close> puts one space for every run of
  whitespace, \<open>trim_spaces\<close> removes the spaces at the two ends.
\<close>

fun collapse_runs :: "bool \<Rightarrow> pystr \<Rightarrow> pystr" where
  "collapse_runs in_run [] = []"
| "collapse_runs in_run (c # cs) =
     (if py_isspace c
      then (if in_run then collapse_runs True cs else 32 # collapse_runs True cs)
      else c # collapse_runs False cs)"

definition trim_spaces :: "pystr \<Rightarrow> pystr" where
  "trim_spaces s = rev (dropWhile (\<lambda>c. c = 32) (rev (dropWhile (\<lambda>c. c = 32) s)))"

definition spec_collapse :: "pystr \<Rightarrow> pystr" where
  "spec_collapse s = trim_spaces (collapse_runs False s)"

section \<open>Exceptions, events and scripted capabilities\<close>

text \<open>
  The exceptions the browser, the file system and the event loop can raise.
  \<open>except Exception\<close> catches the first two; \<open>KeyboardInterrupt\<close> and
  \<open>CancelledError\<close> derive from \<open>BaseException\<close> only and pass through it.
\<close>

datatype exn =
    PlaywrightTimeoutError
  | OtherException string
  | KeyboardInterrupt
  | CancelledError

fun is_Exception :: "exn \<Rightarrow> bool" where
  "is_Exception PlaywrightTimeoutError = True"
| "is_Exception (OtherException msg) = True"
| "is_Exception KeyboardInterrupt = False"
| "is_Exception CancelledError = False"

text \<open>
  What a run does is recorded as a list of events, in program order. A call of an
  external capability is recorded when it is made, whatever its outcome. \<open>Sleep\<close>
  carries the place of the \<open>asyncio.sleep\<close> call in the source; \<open>AttemptBegin k\<close>
  marks the start of the loop body for \<open>attempt = k\<close>, \<open>SnapshotBegin\<close> the call of
  \<open>save_debug_snapshot\<close> and \<open>TaskAppended\<close> the \<open>tasks.append\<close> of the batch loop.
\<close>

datatype sleep_site = Backoff | Settle | SnapshotSettle | RateLimit

datatype event =
    AttemptBegin int
  | NewPage
  | ClosePage
  | Sleep sleep_site real
  | Goto pystr int
  | WaitForSelector
  | NameTextContent
  | GradeTextContent
  | LogRetrying pystr int int
  | LogFetching pystr
  | LogFetched pystr pystr pystr
  | LogTimeout pystr int
  | LogFetchError pystr exn
  | SnapshotBegin pystr int
  | MakeDirs pystr
  | PageContent
  | WriteFile pystr pystr
  | LogSnapshotSaved pystr
  | LogSnapshotFailed pystr exn
  | TaskAppended pystr

text \<open>
  The browser is an external capability. For one loop iteration of
  \<open>fetch_certificate_data\<close> a \<open>page_script\<close> fixes what each call on the page does
  (\<open>None\<close>: the call returns, \<open>Some e\<close>: it raises \<open>e\<close>); \<open>text_content()\<close> returns
  a string or Python's \<open>None\<close>. A \<open>snapshot_script\<close> does the same for
  \<open>save_debug_snapshot\<close>. The scripts are arbitrary, so every behaviour of the real
  capability is some script.
\<close>

record page_script =
  new_page :: "exn option"
  goto :: "exn option"
  wait_for_selector :: "exn option"
  name_text :: "exn + pystr option"
  grade_text :: "exn + pystr option"
  close_first :: "exn option"
  close_final :: "exn option"

record snapshot_script =
  snap_new_page :: "exn option"
  makedirs :: "exn option"
  snap_goto :: "exn option"
  snap_content :: "exn + pystr"
  snap_write :: "exn option"
  snap_close :: "exn option"

text \<open>
  What one worker meets: the page script of each attempt, the snapshot script, and
  when the worker ends, as a position in time among the workers of its window (only the
  order of these numbers matters).
\<close>

record worker_env =
  pages :: "int \<Rightarrow> page_script"
  snapshot :: snapshot_script
  finished_at :: nat

text \<open>
  A computation yields its events and either the exception it raised or its value.
  \<open>bind\<close> is sequencing: an exception ends the sequence.
\<close>

type_synonym 'a comp = "event list \<times> (exn + 'a)"

definition ret :: "'a \<Rightarrow> 'a comp" where
  "ret x = ([], Inr x)"

definition emit :: "event list \<Rightarrow> unit comp" where
  "emit evs = (evs, Inr ())"

definition call :: "event \<Rightarrow> exn option \<Rightarrow> unit comp" where
  "call ev outcome = (case outcome of None \<Rightarrow> ([ev], Inr ()) | Some e \<Rightarrow> ([ev], Inl e))"

definition query :: "event \<Rightarrow> exn + 'a \<Rightarrow> 'a comp" where
  "query ev outcome = ([ev], outcome)"

definition bind :: "'a comp \<Rightarrow> ('a \<Rightarrow> 'b comp) \<Rightarrow> 'b comp" where
  "bind m f =
     (case m of
        (tr, Inl e) \<Rightarrow> (tr, Inl e)
      | (tr, Inr x) \<Rightarrow> (case f x of (tr', r) \<Rightarrow> (tr @ tr', r)))"

text \<open>A method call on the value of \<open>text_content()\<close>: on \<open>None\<close> it raises AttributeError.\<close>

definition str_method :: "pystr option \<Rightarrow> pystr comp" where
  "str_method v =
     (case v of
        None \<Rightarrow> ([], Inl (OtherException ''AttributeError''))
      | Some s \<Rightarrow> ([], Inr s))"

section \<open>fetch\_certificate\_data\<close>

definition cert_url :: "pystr \<Rightarrow> pystr" where
  "cert_url certificate_id = str_lit ''https://acegrading.com/cert/'' @ certificate_id"

text \<open>The body of the \<open>try\<close> statement (lines 50 to 70), up to its \<open>return\<close>.\<close>

definition try_body ::
  "page_script \<Rightarrow> pystr \<Rightarrow> int \<Rightarrow> int \<Rightarrow> real \<Rightarrow> int \<Rightarrow> (pystr \<times> pystr \<times> pystr) comp" where
  "try_body ps certificate_id timeout retry_count retry_delay attempt =
     bind (if attempt > 1
           then emit [LogRetrying certificate_id attempt (retry_count + 1),
                      Sleep Backoff (retry_delay * real_of_int attempt)]
           else emit [])
     (\<lambda>_. bind (emit [LogFetching certificate_id])
     (\<lambda>_. bind (call (Goto (cert_url certificate_id) timeout) (goto ps))
     (\<lambda>_. bind (emit [Sleep Settle (3 / 2)])
     (\<lambda>_. bind (call WaitForSelector (wait_for_selector ps))
     (\<lambda>_. bind (query NameTextContent (name_text ps))
     (\<lambda>card_name_raw. bind (str_method card_name_raw)
     (\<lambda>raw. let card_name = py_join (str_lit '' '') (py_split raw) in
       bind (query GradeTextContent (grade_text ps))
     (\<lambda>grade_raw. bind (str_method grade_raw)
     (\<lambda>raw'. let grade = py_strip raw' in
       bind (emit [LogFetched certificate_id card_name grade])
     (\<lambda>_. bind (call ClosePage (close_first ps))
     (\<lambda>_. ret (certificate_id, card_name, grade))))))))))))"

text \<open>
  How one pass through the loop body ends: the loop goes on, the function returns a
  value, or an exception leaves the function.
\<close>

datatype 'a flow = Continue | Return 'a | Raise exn

text \<open>
  The \<open>except\<close> clauses: a Playwright timeout and any other \<open>Exception\<close> are logged
  and the loop goes on; anything else is not caught.
\<close>

definition handlers ::
  "pystr \<Rightarrow> int \<Rightarrow> exn + (pystr \<times> pystr \<times> pystr) \<Rightarrow> event list \<times> (pystr \<times> pystr \<times> pystr) flow" where
  "handlers certificate_id attempt r =
     (case r of
        Inr v \<Rightarrow> ([], Return v)
      | Inl PlaywrightTimeoutError \<Rightarrow> ([LogTimeout certificate_id attempt], Continue)
      | Inl e \<Rightarrow>
          if is_Exception e then ([LogFetchError certificate_id e], Continue)
          else ([], Raise e))"

text \<open>
  One pass through the loop body (lines 48 to 77). The page is created before the
  \<open>try\<close>, so an exception of \<open>create_stealth_page\<close> leaves the function. The
  \<open>finally\<close> clause closes the page on every path; an exception it raises replaces
  the pending return value or exception.
\<close>

definition iteration ::
  "page_script \<Rightarrow> pystr \<Rightarrow> int \<Rightarrow> int \<Rightarrow> real \<Rightarrow> int \<Rightarrow> event list \<times> (pystr \<times> pystr \<times> pystr) flow" where
  "iteration ps certificate_id timeout retry_count retry_delay attempt =
     (case new_page ps of
        Some e \<Rightarrow> ([AttemptBegin attempt, NewPage], Raise e)
      | None \<Rightarrow>
          (case try_body ps certificate_id timeout retry_count retry_delay attempt of
             (tr, r) \<Rightarrow>
               (case handlers certificate_id attempt r of
                  (tr_h, fl) \<Rightarrow>
                    ([AttemptBegin attempt, NewPage] @ tr @ tr_h @ [ClosePage],
                     (case close_final ps of Some e' \<Rightarrow> Raise e' | None \<Rightarrow> fl)))))"

text \<open>The \<open>for\<close> loop over the attempt numbers.\<close>

fun attempts_loop ::
  "(int \<Rightarrow> page_script) \<Rightarrow> pystr \<Rightarrow> int \<Rightarrow> int \<Rightarrow> real \<Rightarrow> int list
     \<Rightarrow> event list \<times> (pystr \<times> pystr \<times> pystr) flow" where
  "attempts_loop env certificate_id timeout retry_count retry_delay [] = ([], Continue)"
| "attempts_loop env certificate_id timeout retry_count retry_delay (attempt # rest) =
     (case iteration (env attempt) certificate_id timeout retry_count retry_delay attempt of
        (tr, Continue) \<Rightarrow>
          (case attempts_loop env certificate_id timeout retry_count retry_delay rest of
             (tr', fl) \<Rightarrow> (tr @ tr', fl))
      | (tr, fl) \<Rightarrow> (tr, fl))"

section \<open>save\_debug\_snapshot\<close>

definition debug_dir :: pystr where
  "debug_dir = str_lit ''debug_snapshots''"

text \<open>\<open>os.path.join\<close> of two components on a POSIX system.\<close>

definition path_join :: "pystr \<Rightarrow> pystr \<Rightarrow> pystr" where
  "path_join a b =
     (if b \<noteq> [] \<and> hd b = 47 then b
      else if a = [] \<or> last a = 47 then a @ b
      else a @ [47] @ b)"

definition snapshot_try :: "snapshot_script \<Rightarrow> pystr \<Rightarrow> int \<Rightarrow> unit comp" where
  "snapshot_try ss certificate_id timeout =
     bind (call (Goto (cert_url certificate_id) timeout) (snap_goto ss))
     (\<lambda>_. bind (emit [Sleep SnapshotSettle 2])
     (\<lambda>_. bind (query PageContent (snap_content ss))
     (\<lambda>content.
       bind (call (WriteFile (path_join debug_dir (certificate_id @ str_lit ''.html'')) content)
               (snap_write ss))
     (\<lambda>_. emit [LogSnapshotSaved certificate_id]))))"

text \<open>
  Lines 82 to 97. The page and the directory are made before the \<open>try\<close>; only what
  the \<open>try\<close> body raises reaches \<open>except Exception\<close>.
\<close>

definition save_debug_snapshot :: "snapshot_script \<Rightarrow> pystr \<Rightarrow> int \<Rightarrow> unit comp" where
  "save_debug_snapshot ss certificate_id timeout =
     (case snap_new_page ss of
        Some e \<Rightarrow> ([SnapshotBegin certificate_id timeout, NewPage], Inl e)
      | None \<Rightarrow>
          (case makedirs ss of
             Some e \<Rightarrow> ([SnapshotBegin certificate_id timeout, NewPage, MakeDirs debug_dir], Inl e)
           | None \<Rightarrow>
               (case snapshot_try ss certificate_id timeout of
                  (tr, r) \<Rightarrow>
                    (case (case r of
                             Inr u \<Rightarrow> ([], Inr ())
                           | Inl e \<Rightarrow>
                               if is_Exception e
                               then ([LogSnapshotFailed certificate_id e], Inr ())
                               else ([], Inl e)) of
                       (tr_h, r') \<Rightarrow>
                         ([SnapshotBegin certificate_id timeout, NewPage, MakeDirs debug_dir]
                            @ tr @ tr_h @ [ClosePage],
                          (case snap_close ss of Some e' \<Rightarrow> Inl e' | None \<Rightarrow> r'))))))"

text \<open>
  The whole function. The declared return type is \<open>tuple[str, str, str] | None\<close>,
  hence the \<open>option\<close>: \<open>Some\<close> is a \<open>return\<close> of a tuple, \<open>None\<close> would be Python's
  \<open>None\<close>. \<open>range(1, retry_count + 2)\<close> is the list \<open>[1..retry_count + 1]\<close>.
\<close>

definition error_str :: pystr where
  "error_str = str_lit ''Error''"

definition fetch_certificate_data ::
  "worker_env \<Rightarrow> pystr \<Rightarrow> int \<Rightarrow> int \<Rightarrow> real \<Rightarrow> (pystr \<times> pystr \<times> pystr) option comp" where
  "fetch_certificate_data env certificate_id timeout retry_count retry_delay =
     (case attempts_loop (pages env) certificate_id timeout retry_count retry_delay
             [1..retry_count + 1] of
        (tr, Return v) \<Rightarrow> (tr, Inr (Some v))
      | (tr, Raise e) \<Rightarrow> (tr, Inl e)
      | (tr, Continue) \<Rightarrow>
          (case save_debug_snapshot (snapshot env) certificate_id timeout of
             (tr', Inl e) \<Rightarrow> (tr @ tr', Inl e)
           | (tr', Inr u) \<Rightarrow> (tr @ tr', Inr (Some (certificate_id, error_str, error_str)))))"


section \<open>process\_certificate\_batch\<close>

text \<open>
  The \<open>for\<close> loop of lines 108 to 117. Calling the \<open>async\<close> function only makes a
  coroutine object; its body runs when \<open>asyncio.gather\<close> schedules it, after the loop.
  The loop therefore yields its own events and the list of tasks, each task standing
  for the run of one worker, paired with the time at which that worker ends. The worker
  at local index \<open>j\<close> talks to \<open>wenv j\<close>.
\<close>

fun batch_loop ::
  "(nat \<Rightarrow> worker_env) \<Rightarrow> int \<Rightarrow> int \<Rightarrow> real \<Rightarrow> real \<Rightarrow> nat \<Rightarrow> pystr list
     \<Rightarrow> event list \<times> (nat \<times> (pystr \<times> pystr \<times> pystr) option comp) list" where
  "batch_loop wenv timeout retry_count retry_delay rate_limit index [] = ([], [])"
| "batch_loop wenv timeout retry_count retry_delay rate_limit index (certificate_id # rest) =
     (case batch_loop wenv timeout retry_count retry_delay rate_limit (Suc index) rest of
        (tr, tasks) \<Rightarrow>
          ((if index > 0 \<and> rate_limit > 0 then [Sleep RateLimit rate_limit] else [])
             @ [TaskAppended certificate_id] @ tr,
           (finished_at (wenv index),
            fetch_certificate_data (wenv index) certificate_id timeout retry_count retry_delay)
             # tasks))"

text \<open>
  \<open>asyncio.gather\<close>: the results in the order of the tasks, or an exception when a
  task raises. The tasks run interleaved, so their events are kept apart, one list per
  task. When several tasks raise, the exception that comes out is the one raised first
  in time, here the one of the raising task that ends first (the earlier task in the
  list when two end together). The events kept are those every task would make if left
  to run.
\<close>

fun first_exception :: "(nat \<times> 'a comp) list \<Rightarrow> (nat \<times> exn) option" where
  "first_exception [] = None"
| "first_exception ((t, tr, r) # tasks) =
     (case r of
        Inr x \<Rightarrow> first_exception tasks
      | Inl e \<Rightarrow>
          (case first_exception tasks of
             None \<Rightarrow> Some (t, e)
           | Some (t', e') \<Rightarrow> if t' < t then Some (t', e') else Some (t, e)))"

fun task_values :: "(nat \<times> 'a comp) list \<Rightarrow> 'a list" where
  "task_values [] = []"
| "task_values ((t, tr, Inr x) # tasks) = x # task_values tasks"
| "task_values ((t, tr, Inl e) # tasks) = task_values tasks"

definition gather :: "(nat \<times> 'a comp) list \<Rightarrow> event list list \<times> (exn + 'a list)" where
  "gather tasks =
     (map (\<lambda>task. fst (snd task)) tasks,
      (case first_exception tasks of
         Some (t, e) \<Rightarrow> Inl e
       | None \<Rightarrow> Inr (task_values tasks)))"

definition process_certificate_batch ::
  "(nat \<Rightarrow> worker_env) \<Rightarrow> pystr list \<Rightarrow> int \<Rightarrow> int \<Rightarrow> real \<Rightarrow> real
     \<Rightarrow> event list \<times> event list list \<times> (exn + (pystr \<times> pystr \<times> pystr) option list)" where
  "process_certificate_batch wenv certificate_ids timeout retry_count retry_delay rate_limit =
     (case batch_loop wenv timeout retry_count retry_delay rate_limit 0 certificate_ids of
        (tr, tasks) \<Rightarrow> (case gather tasks of (trs, r) \<Rightarrow> (tr, trs, r)))"

text \<open>
  The time that passes in a list of events, as far as its sleeps fix it. The tasks of a
  batch start when \<open>asyncio.gather\<close> schedules them, after the whole loop; so, counted
  from the call of \<open>process_certificate_batch\<close>, every worker of the batch starts after
  the time slept in the loop, the worker at index 0 included.
\<close>

fun elapsed :: "event list \<Rightarrow> real" where
  "elapsed [] = 0"
| "elapsed (Sleep site d # evs) = max 0 d + elapsed evs"
| "elapsed (ev # evs) = elapsed evs"

definition batch_start_times ::
  "(nat \<Rightarrow> worker_env) \<Rightarrow> pystr list \<Rightarrow> int \<Rightarrow> int \<Rightarrow> real \<Rightarrow> real \<Rightarrow> real list" where
  "batch_start_times wenv certificate_ids timeout retry_count retry_delay rate_limit =
     (case batch_loop wenv timeout retry_count retry_delay rate_limit 0 certificate_ids of
        (tr, tasks) \<Rightarrow> map (\<lambda>task. elapsed tr) tasks)"

section \<open>main and the script\<close>

text \<open>
  The parsed command line. \<open>argparse\<close> accepts every integer for \<open>--concurrency\<close> and
  \<open>--retries\<close> and every float for the two delays; \<open>main\<close> checks none of them. The
  log level set by \<open>--verbose\<close> and the progress bar change no result; log lines are
  recorded whatever the level.
\<close>

record args =
  args_input :: pystr
  args_output :: "pystr option"
  args_concurrency :: int
  args_timeout :: int
  args_retries :: int
  args_delay :: real
  args_rate_limit :: real
  args_verbose :: bool

text \<open>
  What the file system and the browser do for \<open>main\<close>: whether the input path exists,
  the lines of the input file (or the exception of reading it), the launch and the
  closing of the browser, the worker environments by position in the identifier list,
  and the three steps of writing the report.
\<close>

record main_env =
  now :: pystr
  path_exists :: bool
  read_lines :: "exn + pystr list"
  launch_browser :: "exn option"
  workers :: "nat \<Rightarrow> worker_env"
  close_browser :: "exn option"
  open_output :: "exn option"
  write_header :: "exn option"
  write_rows :: "exn option"

datatype main_event =
    LogInputNotFound pystr
  | LogReadFailed exn
  | LogNoIds
  | LogLoaded nat
  | LaunchBrowser
  | Window "event list" "event list list"
  | ProgressUpdate nat
  | CloseBrowser
  | OpenOutput pystr
  | WriteHeader
  | WriteRows
  | LogSaved pystr
  | LogWriteFailed exn
  | LogInterrupted
  | LogFatal exn

text \<open>
  The report file after the run: not opened, opened but not complete, or written with
  these rows.
\<close>

datatype report = NotWritten | Incomplete | Written "pystr list list"

text \<open>How \<open>main\<close> ends: it returns, \<open>sys.exit\<close> was called, or an exception leaves it.\<close>

datatype outcome = Returned | SysExit int | Raised exn

text \<open>
  The loop of lines 164 to 175 for a positive step: \<open>i\<close> runs through
  \<open>range(0, len(certificate_ids), concurrency)\<close>. For a negative step the range from 0
  is empty, which the guard gives as well.
\<close>

function windows_loop ::
  "(nat \<Rightarrow> worker_env) \<Rightarrow> pystr list \<Rightarrow> args \<Rightarrow> int \<Rightarrow> (pystr \<times> pystr \<times> pystr) option list
     \<Rightarrow> main_event list \<times> (exn + (pystr \<times> pystr \<times> pystr) option list)" where
  "windows_loop wenv certificate_ids a i all_results =
     (if 0 < args_concurrency a \<and> i < int (length certificate_ids) then
        (case process_certificate_batch (\<lambda>j. wenv (nat i + j))
                (take (nat (args_concurrency a)) (drop (nat i) certificate_ids))
                (args_timeout a) (args_retries a) (args_delay a) (args_rate_limit a) of
           (tr, trs, Inl e) \<Rightarrow> ([Window tr trs], Inl e)
         | (tr, trs, Inr results) \<Rightarrow>
             (case windows_loop wenv certificate_ids a (i + args_concurrency a)
                     (all_results @ results) of
                (evs, r) \<Rightarrow>
                  (Window tr trs
                     # ProgressUpdate
                         (length (take (nat (args_concurrency a)) (drop (nat i) certificate_ids)))
                     # evs, r)))
      else ([], Inr all_results))"
  by pat_completeness auto
termination
  by (relation "measure (\<lambda>(wenv, ids, a, i, rs). nat (int (length ids) - i))") auto

declare windows_loop.simps [simp del]

text \<open>The \<open>for\<close> statement: \<open>range\<close> raises ValueError for a step of zero.\<close>

definition iterate_windows ::
  "(nat \<Rightarrow> worker_env) \<Rightarrow> pystr list \<Rightarrow> args
     \<Rightarrow> main_event list \<times> (exn + (pystr \<times> pystr \<times> pystr) option list)" where
  "iterate_windows wenv certificate_ids a =
     (if args_concurrency a = 0
      then ([], Inl (OtherException ''ValueError: range() arg 3 must not be zero''))
      else windows_loop wenv certificate_ids a 0 [])"

definition csv_header :: "pystr list" where
  "csv_header = [str_lit ''Certificate ID'', str_lit ''Card Name'', str_lit ''Grade'']"

text \<open>\<open>writerows\<close> needs a sequence for every row; Python's \<open>None\<close> is not one.\<close>

fun csv_rows :: "(pystr \<times> pystr \<times> pystr) option list \<Rightarrow> exn + pystr list list" where
  "csv_rows [] = Inr []"
| "csv_rows (None # rs) = Inl (OtherException ''csv.Error: iterable expected'')"
| "csv_rows (Some (c, n, g) # rs) =
     (case csv_rows rs of Inl e \<Rightarrow> Inl e | Inr rows \<Rightarrow> Inr ([c, n, g] # rows))"

text \<open>The body of the \<open>try\<close> of lines 180 to 184.\<close>

definition write_report ::
  "main_env \<Rightarrow> pystr \<Rightarrow> (pystr \<times> pystr \<times> pystr) option list
     \<Rightarrow> main_event list \<times> report \<times> (exn + unit)" where
  "write_report env output_file all_results =
     (case open_output env of
        Some e \<Rightarrow> ([OpenOutput output_file], NotWritten, Inl e)
      | None \<Rightarrow>
          (case write_header env of
             Some e \<Rightarrow> ([OpenOutput output_file, WriteHeader], Incomplete, Inl e)
           | None \<Rightarrow>
               (case csv_rows all_results of
                  Inl e \<Rightarrow> ([OpenOutput output_file, WriteHeader, WriteRows], Incomplete, Inl e)
                | Inr rows \<Rightarrow>
                    (case write_rows env of
                       Some e \<Rightarrow>
                         ([OpenOutput output_file, WriteHeader, WriteRows], Incomplete, Inl e)
                     | None \<Rightarrow>
                         ([OpenOutput output_file, WriteHeader, WriteRows, LogSaved output_file],
                          Written (csv_header # rows), Inr ())))))"

definition default_output :: "pystr \<Rightarrow> pystr" where
  "default_output stamp = str_lit ''cert_lookup_results_'' @ stamp @ str_lit ''.csv''"

definition main :: "main_env \<Rightarrow> args \<Rightarrow> main_event list \<times> report \<times> outcome" where
  "main env a =
     (let output_file =
            (case args_output a of
               None \<Rightarrow> default_output (now env)
             | Some p \<Rightarrow> if p = [] then default_output (now env) else p)
      in
      if \<not> path_exists env then ([LogInputNotFound (args_input a)], NotWritten, SysExit 1)
      else
        (case read_lines env of
           Inl e \<Rightarrow>
             if is_Exception e then ([LogReadFailed e], NotWritten, SysExit 1)
             else ([], NotWritten, Raised e)
         | Inr lines \<Rightarrow>
             (let certificate_ids = map py_strip (filter (\<lambda>line. py_strip line \<noteq> []) lines) in
              if certificate_ids = [] then ([LogNoIds], NotWritten, SysExit 1)
              else
                (case launch_browser env of
                   Some e \<Rightarrow>
                     ([LogLoaded (length certificate_ids), LaunchBrowser], NotWritten, Raised e)
                 | None \<Rightarrow>
                     (case iterate_windows (workers env) certificate_ids a of
                        (evs, Inl e) \<Rightarrow>
                          ([LogLoaded (length certificate_ids), LaunchBrowser] @ evs,
                           NotWritten, Raised e)
                      | (evs, Inr all_results) \<Rightarrow>
                          (case close_browser env of
                             Some e \<Rightarrow>
                               ([LogLoaded (length certificate_ids), LaunchBrowser] @ evs
                                  @ [CloseBrowser], NotWritten, Raised e)
                           | None \<Rightarrow>
                               (case write_report env output_file all_results of
                                  (wlog, rep, Inr u) \<Rightarrow>
                                    ([LogLoaded (length certificate_ids), LaunchBrowser] @ evs
                                       @ [CloseBrowser] @ wlog, rep, Returned)
                                | (wlog, rep, Inl e) \<Rightarrow>
                                    if is_Exception e
                                    then ([LogLoaded (length certificate_ids), LaunchBrowser]
                                            @ evs @ [CloseBrowser] @ wlog @ [LogWriteFailed e],
                                          rep, SysExit 1)
                                    else ([LogLoaded (length certificate_ids), LaunchBrowser]
                                            @ evs @ [CloseBrowser] @ wlog, rep,
                                          Raised e))))))))"

text \<open>
  Lines 189 to 197: the exit status of the process. An exception that is neither
  \<open>KeyboardInterrupt\<close> nor an \<open>Exception\<close> is not caught, and the interpreter ends
  with status 1.
\<close>

definition run_script :: "main_env \<Rightarrow> args \<Rightarrow> main_event list \<times> report \<times> int" where
  "run_script env a =
     (case main env a of
        (evs, rep, Returned) \<Rightarrow> (evs, rep, 0)
      | (evs, rep, SysExit code) \<Rightarrow> (evs, rep, code)
      | (evs, rep, Raised e) \<Rightarrow>
          (case e of
             KeyboardInterrupt \<Rightarrow> (evs @ [LogInterrupted], rep, 0)
           | _ \<Rightarrow> if is_Exception e then (evs @ [LogFatal e], rep, 1) else (evs, rep, 1)))"

section \<open>Observations on event lists\<close>

text \<open>The attempt numbers, the snapshot calls and the sleeps of one place, in order.\<close>

fun attempts_of :: "event list \<Rightarrow> int list" where
  "attempts_of [] = []"
| "attempts_of (AttemptBegin k # tr) = k # attempts_of tr"
| "attempts_of (ev # tr) = attempts_of tr"

fun snapshots_of :: "event list \<Rightarrow> (pystr \<times> int) list" where
  "snapshots_of [] = []"
| "snapshots_of (SnapshotBegin c t # tr) = (c, t) # snapshots_of tr"
| "snapshots_of (ev # tr) = snapshots_of tr"

fun sleeps_of :: "sleep_site \<Rightarrow> event list \<Rightarrow> real list" where
  "sleeps_of site [] = []"
| "sleeps_of site (Sleep site' d # tr) =
     (if site' = site then d # sleeps_of site tr else sleeps_of site tr)"
| "sleeps_of site (ev # tr) = sleeps_of site tr"

text \<open>Whether an event of \<open>main\<close> is fetch work or a step of writing the report.\<close>

fun is_log :: "main_event \<Rightarrow> bool" where
  "is_log (LogInputNotFound p) = True"
| "is_log (LogReadFailed e) = True"
| "is_log LogNoIds = True"
| "is_log (LogLoaded n) = True"
| "is_log (LogSaved p) = True"
| "is_log (LogWriteFailed e) = True"
| "is_log LogInterrupted = True"
| "is_log (LogFatal e) = True"
| "is_log ev = False"

section \<open>Scripts used as examples\<close>

definition page_ok :: "pystr \<Rightarrow> pystr \<Rightarrow> page_script" where
  "page_ok raw_name raw_grade =
     \<lparr>new_page = None, goto = None, wait_for_selector = None,
      name_text = Inr (Some raw_name), grade_text = Inr (Some raw_grade),
      close_first = None, close_final = None\<rparr>"

definition page_timeout :: page_script where
  "page_timeout =
     \<lparr>new_page = None, goto = Some PlaywrightTimeoutError, wait_for_selector = None,
      name_text = Inr None, grade_text = Inr None,
      close_first = None, close_final = None\<rparr>"

definition snapshot_ok :: "pystr \<Rightarrow> snapshot_script" where
  "snapshot_ok html =
     \<lparr>snap_new_page = None, makedirs = None, snap_goto = None,
      snap_content = Inr html, snap_write = None, snap_close = None\<rparr>"

definition worker_ok :: "pystr \<Rightarrow> pystr \<Rightarrow> worker_env" where
  "worker_ok raw_name raw_grade =
     \<lparr>pages = (\<lambda>k. page_ok raw_name raw_grade), snapshot = snapshot_ok [], finished_at = 0\<rparr>"

definition worker_timeout :: worker_env where
  "worker_timeout = \<lparr>pages = (\<lambda>k. page_timeout), snapshot = snapshot_ok [], finished_at = 0\<rparr>"

text \<open>
  A worker whose pages time out and whose \<open>os.makedirs\<close> fails, as it does when a
  regular file named \<open>debug_snapshots\<close> is in the working directory.
\<close>

definition worker_makedirs_fails :: worker_env where
  "worker_makedirs_fails =
     \<lparr>pages = (\<lambda>k. page_timeout),
      snapshot = (snapshot_ok [])\<lparr>makedirs := Some (OtherException ''FileExistsError'')\<rparr>,
      finished_at = 0\<rparr>"

definition example_args :: args where
  "example_args =
     \<lparr>args_input = str_lit ''certs.txt'', args_output = None, args_concurrency = 2,
      args_timeout = 15000, args_retries = 1, args_delay = 2, args_rate_limit = 1,
      args_verbose = False\<rparr>"

definition example_env :: "pystr list \<Rightarrow> main_env" where
  "example_env lines =
     \<lparr>now = str_lit ''20240101_000000'', path_exists = True, read_lines = Inr lines,
      launch_browser = None,
      workers = (\<lambda>j. if j = 1 then worker_timeout
                      else worker_ok (str_lit '' Pika   chu '') (str_lit '' 10 '')),
      close_browser = None, open_output = None, write_header = None, write_rows = None\<rparr>"

text \<open>The defining equations, for evaluating the model on a concrete input.\<close>

named_theorems model_defs

declare str_lit_def [model_defs] py_isspace_def [model_defs] py_split.simps [model_defs]
  py_strip_def [model_defs] ret_def [model_defs] emit_def [model_defs] call_def [model_defs]
  query_def [model_defs] bind_def [model_defs] str_method_def [model_defs]
  cert_url_def [model_defs] try_body_def [model_defs] handlers_def [model_defs]
  iteration_def [model_defs] debug_dir_def [model_defs] path_join_def [model_defs]
  snapshot_try_def [model_defs] save_debug_snapshot_def [model_defs]
  error_str_def [model_defs] fetch_certificate_data_def [model_defs]
  gather_def [model_defs] batch_start_times_def [model_defs]
  process_certificate_batch_def [model_defs] iterate_windows_def [model_defs]
  windows_loop.simps [model_defs] csv_header_def [model_defs] write_report_def [model_defs]
  default_output_def [model_defs] main_def [model_defs] run_script_def [model_defs]
  page_ok_def [model_defs] page_timeout_def [model_defs] snapshot_ok_def [model_defs]
  worker_ok_def [model_defs] worker_timeout_def [model_defs]
  worker_makedirs_fails_def [model_defs] example_args_def [model_defs]
  example_env_def [model_defs] Let_def [model_defs] trim_spaces_def [model_defs]
  spec_collapse_def [model_defs]


section \<open>Properties of the string operations\<close>

lemma py_isspace_space: "py_isspace 32"
  by (simp add: py_isspace_def)

lemma str_lit_space: "str_lit '' '' = [32]"
  by (simp add: str_lit_def)

lemma py_split_words:
  "w \<in> set (py_split s) \<Longrightarrow> w \<noteq> [] \<and> (\<forall>c\<in>set w. \<not> py_isspace c)"
proof (induction s rule: py_split.induct)
  case (1 s)
  show ?case
  proof (cases "dropWhile py_isspace s")
    case Nil
    with "1.prems" show ?thesis by (simp add: py_split.simps [of s])
  next
    case (Cons c cs)
    have nsp: "\<not> py_isspace c"
      using Cons hd_dropWhile [of py_isspace s] by (metis list.sel(1) list.distinct(1))
    from "1.prems" Cons have
      "w = takeWhile (\<lambda>x. \<not> py_isspace x) (c # cs)
        \<or> w \<in> set (py_split (dropWhile (\<lambda>x. \<not> py_isspace x) (c # cs)))"
      by (simp add: py_split.simps [of s])
    then show ?thesis
    proof
      assume "w = takeWhile (\<lambda>x. \<not> py_isspace x) (c # cs)"
      then show ?thesis using nsp by (auto dest: set_takeWhileD)
    next
      assume "w \<in> set (py_split (dropWhile (\<lambda>x. \<not> py_isspace x) (c # cs)))"
      then show ?thesis using "1.IH" [OF Cons] by blast
    qed
  qed
qed

lemma py_split_concat:
  "concat (py_split s) = filter (\<lambda>c. \<not> py_isspace c) s"
proof (induction s rule: py_split.induct)
  case (1 s)
  show ?case
  proof (cases "dropWhile py_isspace s")
    case Nil
    then have "\<forall>c\<in>set s. py_isspace c" by simp
    then have "filter (\<lambda>c. \<not> py_isspace c) s = []" by (simp add: filter_empty_conv)
    moreover have "py_split s = []" by (subst py_split.simps) (simp add: Nil)
    ultimately show ?thesis by simp
  next
    case (Cons c cs)
    let ?P = "\<lambda>x. \<not> py_isspace x"
    have s: "s = takeWhile py_isspace s @ (c # cs)"
      using Cons takeWhile_dropWhile_id [of py_isspace s] by simp
    have "filter ?P (takeWhile py_isspace s) = []"
      by (auto simp: filter_empty_conv dest: set_takeWhileD)
    then have f1: "filter ?P s = filter ?P (c # cs)"
      using s by (metis filter_append append_Nil)
    have "filter ?P (c # cs) = filter ?P (takeWhile ?P (c # cs)) @ filter ?P (dropWhile ?P (c # cs))"
      by (metis filter_append takeWhile_dropWhile_id)
    also have "filter ?P (takeWhile ?P (c # cs)) = takeWhile ?P (c # cs)"
      by (rule filter_True) (auto dest: set_takeWhileD)
    finally have f2: "filter ?P (c # cs) = takeWhile ?P (c # cs) @ filter ?P (dropWhile ?P (c # cs))" .
    show ?thesis
      using "1.IH" [OF Cons] Cons f1 f2 by (simp add: py_split.simps [of s])
  qed
qed

lemma py_split_word_append:
  assumes "w \<noteq> []" "\<forall>c\<in>set w. \<not> py_isspace c" "r = [] \<or> py_isspace (hd r)"
  shows "py_split (w @ r) = w # py_split r"
proof -
  obtain c cs where w: "w = c # cs" using assms(1) by (cases w) auto
  have d: "dropWhile py_isspace (w @ r) = c # (cs @ r)" using w assms(2) by simp
  have t: "takeWhile (\<lambda>x. \<not> py_isspace x) (c # (cs @ r)) = w"
    using assms(2,3) w by (cases r) auto
  have dd: "dropWhile (\<lambda>x. \<not> py_isspace x) (c # (cs @ r)) = r"
    using assms(2,3) w by (cases r) auto
  have "py_split (w @ r) =
      takeWhile (\<lambda>x. \<not> py_isspace x) (c # (cs @ r))
        # py_split (dropWhile (\<lambda>x. \<not> py_isspace x) (c # (cs @ r)))"
    by (subst py_split.simps) (simp only: d list.case)
  then show ?thesis by (simp only: t dd)
qed

lemma py_split_space: "py_split (32 # r) = py_split r"
  by (simp add: py_split.simps [of "32 # r"] py_split.simps [of r] py_isspace_space)

lemma py_split_Nil: "py_split [] = []"
  by (simp add: py_split.simps [of "[]"])

lemma py_split_join:
  "\<forall>w\<in>set ws. w \<noteq> [] \<and> (\<forall>c\<in>set w. \<not> py_isspace c) \<Longrightarrow> py_split (py_join [32] ws) = ws"
proof (induction "[32::nat]" ws rule: py_join.induct)
  case 1
  then show ?case by (simp add: py_split_Nil)
next
  case (2 w)
  then show ?case using py_split_word_append [of w "[]"] by (simp add: py_split_Nil)
next
  case (3 w v ws)
  have "py_split (w @ 32 # py_join [32] (v # ws)) = w # py_split (32 # py_join [32] (v # ws))"
    using 3(2) by (intro py_split_word_append) (auto simp: py_isspace_space)
  then show ?case using 3 by (simp add: py_split_space)
qed

lemma py_join_hd:
  "\<forall>w\<in>set ws. w \<noteq> [] \<and> (\<forall>c\<in>set w. \<not> py_isspace c) \<Longrightarrow> ws \<noteq> [] \<Longrightarrow>
     py_join [32] ws \<noteq> [] \<and> \<not> py_isspace (hd (py_join [32] ws))"
  by (induction "[32::nat]" ws rule: py_join.induct) auto

lemma py_join_last:
  "\<forall>w\<in>set ws. w \<noteq> [] \<and> (\<forall>c\<in>set w. \<not> py_isspace c) \<Longrightarrow> ws \<noteq> [] \<Longrightarrow>
     \<not> py_isspace (last (py_join [32] ws))"
proof (induction "[32::nat]" ws rule: py_join.induct)
  case (3 w v ws)
  then have "py_join [32] (v # ws) \<noteq> []" using py_join_hd [of "v # ws"] by simp
  then show ?case using 3 by simp
qed auto

lemma py_join_ws_chars:
  "\<forall>w\<in>set ws. w \<noteq> [] \<and> (\<forall>c\<in>set w. \<not> py_isspace c) \<Longrightarrow>
     c \<in> set (py_join [32] ws) \<Longrightarrow> py_isspace c \<Longrightarrow> c = 32"
  by (induction "[32::nat]" ws rule: py_join.induct) auto

lemma single_spaced_word:
  "\<forall>c\<in>set w. \<not> py_isspace c \<Longrightarrow> single_spaced r \<Longrightarrow> single_spaced (w @ r)"
proof (induction w)
  case (Cons a w)
  then show ?case by (cases "w @ r") auto
qed simp

lemma py_join_single_spaced:
  "\<forall>w\<in>set ws. w \<noteq> [] \<and> (\<forall>c\<in>set w. \<not> py_isspace c) \<Longrightarrow> single_spaced (py_join [32] ws)"
proof (induction "[32::nat]" ws rule: py_join.induct)
  case (2 w)
  then show ?case using single_spaced_word [of w "[]"] by simp
next
  case (3 w v ws)
  have ne: "py_join [32] (v # ws) \<noteq> []" "\<not> py_isspace (hd (py_join [32] (v # ws)))"
    using 3(2) py_join_hd [of "v # ws"] by simp_all
  have "single_spaced (32 # py_join [32] (v # ws))"
    using ne 3 by (cases "py_join [32] (v # ws)") auto
  then show ?case using 3(2) single_spaced_word [of w] by simp
qed simp

lemma py_strip_decomp:
  "\<exists>l r. s = l @ py_strip s @ r \<and> (\<forall>c\<in>set l. py_isspace c) \<and> (\<forall>c\<in>set r. py_isspace c)"
proof -
  let ?m = "dropWhile py_isspace s"
  have 1: "s = takeWhile py_isspace s @ ?m" by simp
  have 2: "rev ?m = takeWhile py_isspace (rev ?m) @ dropWhile py_isspace (rev ?m)" by simp
  then have "?m = py_strip s @ rev (takeWhile py_isspace (rev ?m))"
    unfolding py_strip_def by (metis rev_append rev_rev_ident)
  then have "s = takeWhile py_isspace s @ py_strip s @ rev (takeWhile py_isspace (rev ?m))"
    using 1 by simp
  moreover have "\<forall>c\<in>set (takeWhile py_isspace s). py_isspace c" by (auto dest: set_takeWhileD)
  moreover have "\<forall>c\<in>set (rev (takeWhile py_isspace (rev ?m))). py_isspace c" by (auto dest: set_takeWhileD)
  ultimately show ?thesis by blast
qed

lemma py_strip_ends:
  "py_strip s \<noteq> [] \<Longrightarrow> \<not> py_isspace (hd (py_strip s)) \<and> \<not> py_isspace (last (py_strip s))"
proof -
  assume ne: "py_strip s \<noteq> []"
  let ?m = "dropWhile py_isspace s"
  let ?k = "dropWhile py_isspace (rev ?m)"
  have k: "?k \<noteq> []" using ne by (simp add: py_strip_def)
  have l: "\<not> py_isspace (hd ?k)" using k hd_dropWhile by blast
  have "last (py_strip s) = hd ?k" using k by (simp add: py_strip_def last_rev)
  have m: "?m \<noteq> []"
  proof
    assume a: "?m = []"
    show False using k unfolding a by simp
  qed
  have hm: "\<not> py_isspace (hd ?m)" using m hd_dropWhile by blast
  obtain t where t: "rev ?m = t @ ?k" by (metis takeWhile_dropWhile_id)
  then have "?m = rev ?k @ rev t" by (metis rev_append rev_rev_ident)
  then have "hd ?m = hd (rev ?k)" using k by (metis hd_append2 rev_is_Nil_conv)
  then have "\<not> py_isspace (hd (py_strip s))" using hm by (simp add: py_strip_def)
  with l \<open>last (py_strip s) = hd ?k\<close> show ?thesis by simp
qed


section \<open>The card name against the words of the specification\<close>

lemma collapse_runs_gap:
  "\<forall>c\<in>set g. py_isspace c \<Longrightarrow> collapse_runs True (g @ r) = collapse_runs True r"
  by (induction g) simp_all

lemma collapse_runs_word:
  "\<forall>c\<in>set w. \<not> py_isspace c \<Longrightarrow> collapse_runs False (w @ r) = w @ collapse_runs False r"
  by (induction w) simp_all

lemma collapse_runs_word_ne:
  assumes "w \<noteq> []" "\<forall>c\<in>set w. \<not> py_isspace c"
  shows "collapse_runs b (w @ r) = w @ collapse_runs False r"
proof -
  obtain c cs where w: "w = c # cs" using assms(1) by (cases w) auto
  then have "collapse_runs b (w @ r) = c # collapse_runs False (cs @ r)"
    using assms(2) by simp
  also have "\<dots> = c # cs @ collapse_runs False r"
    using assms(2) w by (simp add: collapse_runs_word)
  finally show ?thesis using w by simp
qed

lemma collapse_runs_False_True:
  "collapse_runs False s
     = (if s \<noteq> [] \<and> py_isspace (hd s) then [32] else []) @ collapse_runs True s"
  by (cases s) simp_all

lemma py_split_empty_iff: "py_split s = [] \<longleftrightarrow> (\<forall>c\<in>set s. py_isspace c)"
proof (cases "dropWhile py_isspace s")
  case Nil
  have "py_split s = []" by (subst py_split.simps) (simp only: Nil list.case)
  moreover from Nil have "\<forall>c\<in>set s. py_isspace c" by simp
  ultimately show ?thesis by simp
next
  case (Cons c cs)
  have "py_split s \<noteq> []" by (subst py_split.simps) (simp only: Cons list.case list.distinct not_False_eq_True)
  moreover have "\<not> (\<forall>c\<in>set s. py_isspace c)"
  proof
    assume "\<forall>c\<in>set s. py_isspace c"
    then have "dropWhile py_isspace s = []" by simp
    with Cons show False by simp
  qed
  ultimately show ?thesis by simp
qed

lemma collapse_runs_split:
  "collapse_runs True s
     = (if py_split s = [] then []
        else py_join [32] (py_split s) @ (if py_isspace (last s) then [32] else []))"
proof (induction s rule: py_split.induct)
  case (1 s)
  let ?N = "\<lambda>x. \<not> py_isspace x"
  have s: "s = takeWhile py_isspace s @ dropWhile py_isspace s" by simp
  have g: "collapse_runs True s = collapse_runs True (dropWhile py_isspace s)"
    using collapse_runs_gap [of "takeWhile py_isspace s" "dropWhile py_isspace s"]
    by (auto dest: set_takeWhileD)
  show ?case
  proof (cases "dropWhile py_isspace s")
    case Nil
    have "py_split s = []" by (subst py_split.simps) (simp only: Nil list.case)
    then show ?thesis using g Nil by simp
  next
    case (Cons c cs)
    let ?w = "takeWhile ?N (c # cs)"
    let ?r = "dropWhile ?N (c # cs)"
    have nc: "\<not> py_isspace c"
      using Cons hd_dropWhile [of py_isspace s] by (metis list.sel(1) list.distinct(1))
    have wne: "?w \<noteq> []" using nc by simp
    have wns: "\<forall>x\<in>set ?w. \<not> py_isspace x" by (auto dest: set_takeWhileD)
    have wr: "c # cs = ?w @ ?r" by simp
    have sp: "py_split s = ?w # py_split ?r"
      by (subst py_split.simps) (simp only: Cons list.case)
    have lasts: "last s = last (c # cs)"
      using s Cons by (metis last_appendR list.distinct(1))
    have c1: "collapse_runs True s = ?w @ collapse_runs False ?r"
      using g Cons collapse_runs_word_ne [OF wne wns, of True ?r] wr by simp
    have ih: "collapse_runs True ?r
       = (if py_split ?r = [] then []
          else py_join [32] (py_split ?r) @ (if py_isspace (last ?r) then [32] else []))"
      using "1.IH" [OF Cons] .
    show ?thesis
    proof (cases "?r = []")
      case True
      then have "last (c # cs) = last ?w" using wr by (metis append_Nil2)
      moreover have "last ?w \<in> set ?w" using wne by (rule last_in_set)
      ultimately have "\<not> py_isspace (last s)" using wns lasts by metis
      moreover have "py_split ?r = []" using True by (simp add: py_split_Nil)
      ultimately show ?thesis using c1 sp True by simp
    next
      case False
      then have hr: "py_isspace (hd ?r)" using hd_dropWhile [of ?N "c # cs"] by blast
      have lr: "last s = last ?r" using lasts wr False by (metis last_appendR)
      have c2: "collapse_runs False ?r = 32 # collapse_runs True ?r"
        using False hr by (simp add: collapse_runs_False_True)
      show ?thesis
      proof (cases "py_split ?r = []")
        case True
        then have "\<forall>x\<in>set ?r. py_isspace x" by (simp only: py_split_empty_iff)
        moreover have "last ?r \<in> set ?r" using False by (rule last_in_set)
        ultimately have "py_isspace (last s)" using lr by metis
        then show ?thesis using c1 c2 ih sp True by simp
      next
        case F: False
        then obtain v vs where v: "py_split ?r = v # vs" by (cases "py_split ?r") auto
        show ?thesis using c1 c2 ih sp v lr by simp
      qed
    qed
  qed
qed


lemma trim_spaces_core:
  assumes "J \<noteq> []" "hd J \<noteq> 32" "last J \<noteq> 32"
    and "p = [] \<or> p = [32]" and "q = [] \<or> q = [32]"
  shows "trim_spaces (p @ J @ q) = J"
proof -
  obtain a J' where J: "J = a # J'" using assms(1) by (cases J) auto
  have a: "a \<noteq> 32" using assms(2) J by simp
  have 1: "dropWhile (\<lambda>c. c = 32) (p @ J @ q) = J @ q"
    using assms(4) a J by auto
  obtain b K where K: "rev J = b # K" using assms(1) by (cases "rev J") auto
  have "b = last J" using K assms(1) by (metis hd_rev list.sel(1))
  then have b: "b \<noteq> 32" using assms(3) by simp
  have 2: "dropWhile (\<lambda>c. c = 32) (rev (J @ q)) = rev J"
    using assms(5) b K by auto
  show ?thesis by (simp only: trim_spaces_def 1 2 rev_rev_ident)
qed

lemma trim_spaces_blank: "p = [] \<or> p = [32] \<Longrightarrow> trim_spaces p = []"
  by (auto simp: trim_spaces_def)

lemma py_isspace_32_D: "\<not> py_isspace c \<Longrightarrow> c \<noteq> 32"
  using py_isspace_space by blast

lemma join_split_is_collapse: "py_join [32] (py_split s) = spec_collapse s"
proof -
  let ?p = "if s \<noteq> [] \<and> py_isspace (hd s) then [32] else []"
  let ?q = "if py_isspace (last s) then [32] else []"
  let ?J = "py_join [32] (py_split s)"
  have c: "collapse_runs False s = ?p @ collapse_runs True s"
    by (rule collapse_runs_False_True)
  have words: "\<forall>w\<in>set (py_split s). w \<noteq> [] \<and> (\<forall>x\<in>set w. \<not> py_isspace x)"
    using py_split_words by blast
  show ?thesis
  proof (cases "py_split s = []")
    case True
    then have "collapse_runs True s = []" by (simp add: collapse_runs_split)
    then have "spec_collapse s = trim_spaces ?p" by (simp add: spec_collapse_def c)
    also have "\<dots> = []" by (rule trim_spaces_blank) simp
    finally show ?thesis using True by simp
  next
    case False
    then have t: "collapse_runs True s = ?J @ ?q" by (simp add: collapse_runs_split)
    have ne: "?J \<noteq> []" and h: "\<not> py_isspace (hd ?J)"
      using py_join_hd [OF words False] by simp_all
    have l: "\<not> py_isspace (last ?J)" using py_join_last [OF words False] .
    have "trim_spaces (?p @ ?J @ ?q) = ?J"
      using ne h l by (intro trim_spaces_core) (auto dest: py_isspace_32_D)
    then show ?thesis by (simp only: spec_collapse_def c t)
  qed
qed

lemma spec_collapse_example:
  "spec_collapse (str_lit '' Pika   chu  '') = str_lit ''Pika chu''"
  by (simp add: spec_collapse_def trim_spaces_def str_lit_def py_isspace_def)

section \<open>How the worker returns\<close>

lemma try_body_Inr:
  assumes "snd (try_body ps cid timeout rc rd k) = Inr (c, n, g)"
  shows "\<exists>rn rg. name_text ps = Inr (Some rn) \<and> grade_text ps = Inr (Some rg) \<and>
           c = cid \<and> n = py_join [32] (py_split rn) \<and> g = py_strip rg"
  using assms
  by (auto simp: try_body_def bind_def emit_def call_def query_def ret_def str_method_def
        str_lit_space Let_def
      split: if_splits option.splits sum.splits prod.splits)

lemma handlers_Return:
  "snd (handlers cid k r) = Return v \<Longrightarrow> r = Inr v"
  by (auto simp: handlers_def split: sum.splits exn.splits if_splits)

lemma iteration_Return:
  assumes "snd (iteration ps cid timeout rc rd k) = Return v"
  shows "snd (try_body ps cid timeout rc rd k) = Inr v"
proof -
  obtain tr r where tb: "try_body ps cid timeout rc rd k = (tr, r)" by (cases "try_body ps cid timeout rc rd k")
  obtain trh fl where h: "handlers cid k r = (trh, fl)" by (cases "handlers cid k r")
  from assms tb h have "fl = Return v"
    by (auto simp: iteration_def split: option.splits)
  with h have "snd (handlers cid k r) = Return v" by simp
  then have "r = Inr v" by (rule handlers_Return)
  with tb show ?thesis by simp
qed

lemma attempts_loop_Return:
  "snd (attempts_loop env cid timeout rc rd as) = Return v \<Longrightarrow>
     \<exists>k\<in>set as. snd (iteration (env k) cid timeout rc rd k) = Return v"
proof (induction as)
  case Nil
  then show ?case by simp
next
  case (Cons a as)
  then show ?case
    by (cases "iteration (env a) cid timeout rc rd a"; cases "snd (iteration (env a) cid timeout rc rd a)")
       (auto split: prod.splits)
qed

lemma fetch_Return:
  "snd (attempts_loop (pages env) cid timeout rc rd [1..rc + 1]) = Return v \<Longrightarrow>
     snd (fetch_certificate_data env cid timeout rc rd) = Inr (Some v)"
  by (auto simp: fetch_certificate_data_def split: prod.splits flow.splits)





section \<open>The events of the worker\<close>

lemma attempts_of_append: "attempts_of (a @ b) = attempts_of a @ attempts_of b"
  by (induction a rule: attempts_of.induct) simp_all

lemma snapshots_of_append: "snapshots_of (a @ b) = snapshots_of a @ snapshots_of b"
  by (induction a rule: snapshots_of.induct) simp_all

lemma sleeps_of_append: "sleeps_of site (a @ b) = sleeps_of site a @ sleeps_of site b"
  by (induction site a rule: sleeps_of.induct) simp_all

lemma fst_bind:
  "fst (bind m f) = fst m @ (case snd m of Inl e \<Rightarrow> [] | Inr x \<Rightarrow> fst (f x))"
  by (cases m) (auto simp: bind_def split: sum.splits prod.splits)

lemmas comp_simps = fst_bind emit_def call_def query_def str_method_def ret_def Let_def

lemma try_body_attempts: "attempts_of (fst (try_body ps cid timeout rc rd k)) = []"
  by (simp add: try_body_def comp_simps attempts_of_append split: sum.splits option.splits)

lemma try_body_snapshots: "snapshots_of (fst (try_body ps cid timeout rc rd k)) = []"
  by (simp add: try_body_def comp_simps snapshots_of_append split: sum.splits option.splits)

lemma try_body_backoff:
  "sleeps_of Backoff (fst (try_body ps cid timeout rc rd k))
     = (if k > 1 then [rd * real_of_int k] else [])"
  by (simp add: try_body_def comp_simps sleeps_of_append split: sum.splits option.splits)

lemma handlers_obs:
  "attempts_of (fst (handlers cid k r)) = []"
  "snapshots_of (fst (handlers cid k r)) = []"
  "sleeps_of site (fst (handlers cid k r)) = []"
  by (auto simp: handlers_def split: sum.splits exn.splits)

lemma iteration_attempts:
  "attempts_of (fst (iteration ps cid timeout rc rd k)) = [k]"
  by (auto simp: iteration_def attempts_of_append try_body_attempts handlers_obs
      split: option.splits prod.splits
      dest: arg_cong [where f = "\<lambda>p. attempts_of (fst p)"])


lemma iteration_snapshots:
  "snapshots_of (fst (iteration ps cid timeout rc rd k)) = []"
  by (auto simp: iteration_def snapshots_of_append try_body_snapshots handlers_obs
      split: option.splits prod.splits
      dest: arg_cong [where f = "\<lambda>p. snapshots_of (fst p)"])

lemma iteration_backoff:
  "sleeps_of Backoff (fst (iteration ps cid timeout rc rd k))
     = (if new_page ps = None \<and> k > 1 then [rd * real_of_int k] else [])"
proof (cases "new_page ps")
  case (Some e)
  then show ?thesis by (simp add: iteration_def)
next
  case None
  obtain tr r where tb: "try_body ps cid timeout rc rd k = (tr, r)"
    by (cases "try_body ps cid timeout rc rd k")
  obtain trh fl where h: "handlers cid k r = (trh, fl)" by (cases "handlers cid k r")
  have 1: "sleeps_of Backoff tr = (if k > 1 then [rd * real_of_int k] else [])"
    using try_body_backoff [of ps cid timeout rc rd k] tb by simp
  have 2: "sleeps_of Backoff trh = []"
    using handlers_obs(3) [of Backoff cid k r] h by simp
  show ?thesis
    using None tb h 1 2 by (simp add: iteration_def sleeps_of_append)
qed

lemma iteration_Continue_new_page:
  "snd (iteration ps cid timeout rc rd k) = Continue \<Longrightarrow> new_page ps = None"
  by (auto simp: iteration_def split: option.splits)

lemma attempts_loop_fails:
  assumes "\<forall>k\<in>set as. snd (iteration (env k) cid timeout rc rd k) = Continue"
  shows "snd (attempts_loop env cid timeout rc rd as) = Continue \<and>
         attempts_of (fst (attempts_loop env cid timeout rc rd as)) = as \<and>
         sleeps_of Backoff (fst (attempts_loop env cid timeout rc rd as))
           = map (\<lambda>k. rd * real_of_int k) (filter (\<lambda>k. 1 < k) as)"
  using assms
proof (induction as)
  case Nil
  then show ?case by simp
next
  case (Cons a as)
  obtain tr fl where it: "iteration (env a) cid timeout rc rd a = (tr, fl)"
    by (cases "iteration (env a) cid timeout rc rd a")
  obtain tr' fl' where lp: "attempts_loop env cid timeout rc rd as = (tr', fl')"
    by (cases "attempts_loop env cid timeout rc rd as")
  have fl: "fl = Continue" using Cons.prems it by simp
  have np: "new_page (env a) = None"
    using Cons.prems iteration_Continue_new_page [of "env a" cid timeout rc rd a] by simp
  have a1: "attempts_of tr = [a]"
    using iteration_attempts [of "env a" cid timeout rc rd a] it by simp
  have a2: "sleeps_of Backoff tr = (if a > 1 then [rd * real_of_int a] else [])"
    using iteration_backoff [of "env a" cid timeout rc rd a] it np by simp
  have ih: "fl' = Continue \<and> attempts_of tr' = as \<and>
            sleeps_of Backoff tr' = map (\<lambda>k. rd * real_of_int k) (filter (\<lambda>k. 1 < k) as)"
    using Cons.IH Cons.prems lp by simp
  show ?case
    using it lp fl a1 a2 ih by (simp add: attempts_of_append sleeps_of_append)
qed

lemma attempts_loop_snapshots:
  "snapshots_of (fst (attempts_loop env cid timeout rc rd as)) = []"
proof (induction as)
  case Nil
  then show ?case by simp
next
  case (Cons a as)
  obtain tr fl where it: "iteration (env a) cid timeout rc rd a = (tr, fl)"
    by (cases "iteration (env a) cid timeout rc rd a")
  obtain tr' fl' where lp: "attempts_loop env cid timeout rc rd as = (tr', fl')"
    by (cases "attempts_loop env cid timeout rc rd as")
  have "snapshots_of tr = []"
    using iteration_snapshots [of "env a" cid timeout rc rd a] it by simp
  moreover have "snapshots_of tr' = []" using Cons.IH lp by simp
  ultimately show ?case
    using it lp by (cases fl) (simp_all add: snapshots_of_append)
qed

lemma attempts_loop_prefix:
  "prefix (attempts_of (fst (attempts_loop env cid timeout rc rd as))) as \<and>
   prefix (sleeps_of Backoff (fst (attempts_loop env cid timeout rc rd as)))
          (map (\<lambda>k. rd * real_of_int k) (filter (\<lambda>k. 1 < k) as))"
proof (induction as)
  case Nil
  then show ?case by simp
next
  case (Cons a as)
  obtain tr fl where it: "iteration (env a) cid timeout rc rd a = (tr, fl)"
    by (cases "iteration (env a) cid timeout rc rd a")
  obtain tr' fl' where lp: "attempts_loop env cid timeout rc rd as = (tr', fl')"
    by (cases "attempts_loop env cid timeout rc rd as")
  have a1: "attempts_of tr = [a]"
    using iteration_attempts [of "env a" cid timeout rc rd a] it by simp
  have a2: "sleeps_of Backoff tr
              = (if new_page (env a) = None \<and> a > 1 then [rd * real_of_int a] else [])"
    using iteration_backoff [of "env a" cid timeout rc rd a] it by simp
  show ?case
  proof (cases "fl = Continue")
    case True
    then have "new_page (env a) = None"
      using iteration_Continue_new_page [of "env a" cid timeout rc rd a] it by simp
    then show ?thesis
      using True it lp a1 a2 Cons.IH by (simp add: attempts_of_append sleeps_of_append)
  next
    case False
    then have "attempts_loop env cid timeout rc rd (a # as) = (tr, fl)"
      using it by (cases fl) simp_all
    then show ?thesis using a1 a2 by simp
  qed
qed

lemma filter_upto_gt1: "filter (\<lambda>k. 1 < k) [1..n] = [2..n]"
proof (cases "1 \<le> n")
  case True
  then have "[1..n] = 1 # [2..n]" by (simp add: upto_rec1)
  moreover have "filter (\<lambda>k. 1 < k) [2..n] = [2..n]" by (rule filter_True) simp
  ultimately show ?thesis by simp
next
  case False
  then show ?thesis by simp
qed

lemma backoff_sorted:
  assumes "0 < rd"
  shows "sorted_wrt (<) (map (\<lambda>k. rd * real_of_int k) [2..n])"
proof -
  have "sorted_wrt (<) [2..n]" by (rule sorted_wrt_upto)
  then have "sorted_wrt (\<lambda>x y. rd * real_of_int x < rd * real_of_int y) [2..n]"
    by (rule sorted_wrt_mono_rel [rotated]) (use assms in simp)
  then show ?thesis by (simp add: sorted_wrt_map)
qed

lemma sorted_wrt_prefix: "prefix xs ys \<Longrightarrow> sorted_wrt P ys \<Longrightarrow> sorted_wrt P xs"
  by (auto simp: prefix_def sorted_wrt_append)

lemma snapshot_try_obs:
  "attempts_of (fst (snapshot_try ss cid timeout)) = []"
  "sleeps_of Backoff (fst (snapshot_try ss cid timeout)) = []"
  "snapshots_of (fst (snapshot_try ss cid timeout)) = []"
  by (simp_all add: snapshot_try_def comp_simps
        attempts_of_append sleeps_of_append snapshots_of_append
      split: option.splits sum.splits)

lemma save_debug_snapshot_obs:
  "attempts_of (fst (save_debug_snapshot ss cid timeout)) = []"
  "sleeps_of Backoff (fst (save_debug_snapshot ss cid timeout)) = []"
  "snapshots_of (fst (save_debug_snapshot ss cid timeout)) = [(cid, timeout)]"
proof -
  obtain tr r where st: "snapshot_try ss cid timeout = (tr, r)"
    by (cases "snapshot_try ss cid timeout")
  have o: "attempts_of tr = []" "sleeps_of Backoff tr = []" "snapshots_of tr = []"
    using snapshot_try_obs [of ss cid timeout] st by simp_all
  show "attempts_of (fst (save_debug_snapshot ss cid timeout)) = []"
    using st o by (simp add: save_debug_snapshot_def attempts_of_append
        split: option.splits sum.splits)
  show "sleeps_of Backoff (fst (save_debug_snapshot ss cid timeout)) = []"
    using st o by (simp add: save_debug_snapshot_def sleeps_of_append
        split: option.splits sum.splits)
  show "snapshots_of (fst (save_debug_snapshot ss cid timeout)) = [(cid, timeout)]"
    using st o by (simp add: save_debug_snapshot_def snapshots_of_append
        split: option.splits sum.splits)
qed

section \<open>What the worker returns\<close>

lemma fetch_trace:
  "fst (fetch_certificate_data env cid timeout rc rd)
     = fst (attempts_loop (pages env) cid timeout rc rd [1..rc + 1])
       @ (if snd (attempts_loop (pages env) cid timeout rc rd [1..rc + 1]) = Continue
          then fst (save_debug_snapshot (snapshot env) cid timeout) else [])"
  by (auto simp: fetch_certificate_data_def split: prod.splits flow.splits sum.splits)

lemma fetch_exhausted:
  "snd (attempts_loop (pages env) cid timeout rc rd [1..rc + 1]) = Continue \<Longrightarrow>
     snd (fetch_certificate_data env cid timeout rc rd)
       = (case snd (save_debug_snapshot (snapshot env) cid timeout) of
            Inl e \<Rightarrow> Inl e
          | Inr u \<Rightarrow> Inr (Some (cid, error_str, error_str)))"
  by (auto simp: fetch_certificate_data_def split: prod.splits flow.splits sum.splits)

lemma fetch_cases:
  "snd (fetch_certificate_data env cid timeout rc rd) = Inr v \<Longrightarrow>
     (\<exists>w. v = Some w \<and> snd (attempts_loop (pages env) cid timeout rc rd [1..rc + 1]) = Return w)
     \<or> v = Some (cid, error_str, error_str)"
  by (auto simp: fetch_certificate_data_def split: prod.splits flow.splits sum.splits)

lemma loop_Return_id:
  assumes "snd (attempts_loop env cid timeout rc rd as) = Return w"
  shows "fst w = cid"
proof -
  from assms obtain k where
    "snd (iteration (env k) cid timeout rc rd k) = Return w"
    using attempts_loop_Return by blast
  then have "snd (try_body (env k) cid timeout rc rd k) = Inr w" by (rule iteration_Return)
  then show ?thesis using try_body_Inr [of "env k" cid timeout rc rd k "fst w" "fst (snd w)" "snd (snd w)"]
    by auto
qed

lemma iteration_Continue_iff:
  "snd (iteration ps cid timeout rc rd k) = Continue \<longleftrightarrow>
     new_page ps = None \<and> close_final ps = None \<and>
     (\<exists>e. snd (try_body ps cid timeout rc rd k) = Inl e \<and> is_Exception e)"
proof -
  obtain tr r where tb: "try_body ps cid timeout rc rd k = (tr, r)"
    by (cases "try_body ps cid timeout rc rd k")
  have h: "snd (handlers cid k r) = Continue \<longleftrightarrow> (\<exists>e. r = Inl e \<and> is_Exception e)"
    by (auto simp: handlers_def split: sum.splits exn.splits)
  obtain trh fl where hh: "handlers cid k r = (trh, fl)" by (cases "handlers cid k r")
  show ?thesis
    using tb h hh by (auto simp: iteration_def split: option.splits)
qed

section \<open>When the retries run out\<close>

lemma attempts_loop_Continue_D:
  "snd (attempts_loop env cid timeout rc rd as) = Continue \<Longrightarrow>
     \<forall>k\<in>set as. snd (iteration (env k) cid timeout rc rd k) = Continue"
proof (induction as)
  case Nil
  then show ?case by simp
next
  case (Cons a as)
  obtain tr fl where it: "iteration (env a) cid timeout rc rd a = (tr, fl)"
    by (cases "iteration (env a) cid timeout rc rd a")
  obtain tr' fl' where lp: "attempts_loop env cid timeout rc rd as = (tr', fl')"
    by (cases "attempts_loop env cid timeout rc rd as")
  have fl: "fl = Continue" using Cons.prems it lp by (cases fl) simp_all
  then have "fl' = Continue" using Cons.prems it lp by simp
  then show ?case using Cons.IH it lp fl by simp
qed

lemma fetch_returns_cases:
  "snd (fetch_certificate_data env cid timeout rc rd) = Inr v \<Longrightarrow>
     (\<exists>w. v = Some w \<and> snd (attempts_loop (pages env) cid timeout rc rd [1..rc + 1]) = Return w)
     \<or> (v = Some (cid, error_str, error_str) \<and>
         snd (attempts_loop (pages env) cid timeout rc rd [1..rc + 1]) = Continue)"
  by (auto simp: fetch_certificate_data_def split: prod.splits flow.splits sum.splits)

lemma exhausted_retries_sentinel:
  assumes "\<forall>k\<in>set [1..retry_count + 1].
             snd (iteration (pages env k) certificate_id timeout retry_count retry_delay k)
               = Continue"
  shows "snapshots_of (fst (fetch_certificate_data env certificate_id timeout retry_count
                              retry_delay)) = [(certificate_id, timeout)] \<and>
         (snd (save_debug_snapshot (snapshot env) certificate_id timeout) = Inr () \<longrightarrow>
            snd (fetch_certificate_data env certificate_id timeout retry_count retry_delay)
              = Inr (Some (certificate_id, str_lit ''Error'', str_lit ''Error'')))"
proof -
  have c: "snd (attempts_loop (pages env) certificate_id timeout retry_count retry_delay
                  [1..retry_count + 1]) = Continue"
    using attempts_loop_fails [OF assms] by blast
  have "snapshots_of (fst (fetch_certificate_data env certificate_id timeout retry_count
                              retry_delay)) = [(certificate_id, timeout)]"
    using c by (simp add: fetch_trace snapshots_of_append attempts_loop_snapshots
        save_debug_snapshot_obs)
  moreover have
    "snd (save_debug_snapshot (snapshot env) certificate_id timeout) = Inr () \<longrightarrow>
       snd (fetch_certificate_data env certificate_id timeout retry_count retry_delay)
         = Inr (Some (certificate_id, str_lit ''Error'', str_lit ''Error''))"
    using fetch_exhausted [OF c] by (simp add: error_str_def)
  ultimately show ?thesis by blast
qed

section \<open>The events of a batch\<close>

lemma elapsed_append: "elapsed (a @ b) = elapsed a + elapsed b"
  by (induction a rule: elapsed.induct) simp_all

lemma batch_loop_elapsed:
  "0 < rate_limit \<Longrightarrow> 0 < index \<Longrightarrow>
     elapsed (fst (batch_loop wenv timeout rc rd rate_limit index ids))
       = rate_limit * real (length ids)"
proof (induction ids arbitrary: index)
  case Nil
  then show ?case by simp
next
  case (Cons c ids)
  from Cons.IH [of "Suc index"] Cons.prems show ?case
    by (cases "batch_loop wenv timeout rc rd rate_limit (Suc index) ids")
       (simp add: algebra_simps)
qed

lemma batch_loop_length:
  "length (snd (batch_loop wenv timeout rc rd rate_limit index ids)) = length ids"
proof (induction ids arbitrary: index)
  case Nil
  then show ?case by simp
next
  case (Cons c ids)
  from Cons.IH [of "Suc index"] show ?case
    by (cases "batch_loop wenv timeout rc rd rate_limit (Suc index) ids") simp
qed

lemma batch_start_times_pos:
  assumes "0 < rate_limit"
  shows "batch_start_times wenv ids timeout rc rd rate_limit
           = replicate (length ids) (rate_limit * real (length ids - 1))"
proof (cases ids)
  case Nil
  then show ?thesis by (simp add: batch_start_times_def)
next
  case (Cons c cs)
  obtain tr tasks where b: "batch_loop wenv timeout rc rd rate_limit (Suc 0) cs = (tr, tasks)"
    by (cases "batch_loop wenv timeout rc rd rate_limit (Suc 0) cs")
  have e: "elapsed tr = rate_limit * real (length cs)"
    using batch_loop_elapsed [of rate_limit "Suc 0" wenv timeout rc rd cs] assms b by simp
  have l: "length tasks = length cs"
    using batch_loop_length [of wenv timeout rc rd rate_limit "Suc 0" cs] b by simp
  show ?thesis
    using Cons b e l by (simp add: batch_start_times_def map_replicate_const)
qed

lemma batch_loop_events_pos:
  "0 < rate_limit \<Longrightarrow> 0 < index \<Longrightarrow>
     fst (batch_loop wenv timeout rc rd rate_limit index ids)
       = concat (map (\<lambda>c. [Sleep RateLimit rate_limit, TaskAppended c]) ids)"
proof (induction ids arbitrary: index)
  case Nil
  then show ?case by simp
next
  case (Cons c ids)
  from Cons.IH [of "Suc index"] Cons.prems show ?case
    by (cases "batch_loop wenv timeout rc rd rate_limit (Suc index) ids") simp
qed

lemma batch_loop_events_nonpos:
  "rate_limit \<le> 0 \<Longrightarrow>
     fst (batch_loop wenv timeout rc rd rate_limit index ids) = map TaskAppended ids"
proof (induction ids arbitrary: index)
  case Nil
  then show ?case by simp
next
  case (Cons c ids)
  from Cons.IH [of "Suc index"] Cons.prems show ?case
    by (cases "batch_loop wenv timeout rc rd rate_limit (Suc index) ids") simp
qed

lemma batch_fst:
  "fst (process_certificate_batch wenv ids timeout rc rd rate_limit)
     = fst (batch_loop wenv timeout rc rd rate_limit 0 ids)"
  by (cases "batch_loop wenv timeout rc rd rate_limit 0 ids";
      cases "gather (snd (batch_loop wenv timeout rc rd rate_limit 0 ids))")
     (simp add: process_certificate_batch_def)

lemma rate_limit_sleeps:
  "(0 < rate_limit \<longrightarrow>
      fst (process_certificate_batch wenv certificate_ids timeout retry_count retry_delay
             rate_limit)
        = (case certificate_ids of
             [] \<Rightarrow> []
           | c # cs \<Rightarrow>
               TaskAppended c
                 # concat (map (\<lambda>d. [Sleep RateLimit rate_limit, TaskAppended d]) cs))) \<and>
   (rate_limit \<le> 0 \<longrightarrow>
      fst (process_certificate_batch wenv certificate_ids timeout retry_count retry_delay
             rate_limit)
        = map TaskAppended certificate_ids)"
proof -
  have 1: "0 < rate_limit \<longrightarrow>
      fst (batch_loop wenv timeout retry_count retry_delay rate_limit 0 certificate_ids)
        = (case certificate_ids of
             [] \<Rightarrow> []
           | c # cs \<Rightarrow>
               TaskAppended c
                 # concat (map (\<lambda>d. [Sleep RateLimit rate_limit, TaskAppended d]) cs))"
  proof
    assume p: "0 < rate_limit"
    show "fst (batch_loop wenv timeout retry_count retry_delay rate_limit 0 certificate_ids)
        = (case certificate_ids of
             [] \<Rightarrow> []
           | c # cs \<Rightarrow>
               TaskAppended c
                 # concat (map (\<lambda>d. [Sleep RateLimit rate_limit, TaskAppended d]) cs))"
    proof (cases certificate_ids)
      case Nil
      then show ?thesis by simp
    next
      case (Cons c cs)
      have "fst (batch_loop wenv timeout retry_count retry_delay rate_limit (Suc 0) cs)
              = concat (map (\<lambda>d. [Sleep RateLimit rate_limit, TaskAppended d]) cs)"
        using p by (intro batch_loop_events_pos) simp_all
      then show ?thesis using Cons
        by (cases "batch_loop wenv timeout retry_count retry_delay rate_limit (Suc 0) cs") simp
    qed
  qed
  have 2: "rate_limit \<le> 0 \<longrightarrow>
      fst (batch_loop wenv timeout retry_count retry_delay rate_limit 0 certificate_ids)
        = map TaskAppended certificate_ids"
    using batch_loop_events_nonpos by blast
  show ?thesis using 1 2 by (simp add: batch_fst)
qed

section \<open>The results of a batch\<close>

text \<open>
  Of two raising tasks the one that ends first decides, whatever their order in the list.
\<close>

lemma gather_first_in_time:
  "snd (gather [(5, [], Inl KeyboardInterrupt), (2, [], Inl (OtherException ''x'')),
                (1, [], Inr (0::nat))]) = Inl (OtherException ''x'') \<and>
   snd (gather [(1, [], Inl KeyboardInterrupt), (2, [], Inl (OtherException ''x'')),
                (1, [], Inr (0::nat))]) = Inl KeyboardInterrupt"
  by (simp add: gather_def)

lemma first_exception_None:
  "first_exception tasks = None \<longleftrightarrow> (\<forall>task\<in>set tasks. \<exists>x. snd (snd task) = Inr x)"
proof (induction tasks rule: first_exception.induct)
  case 1
  then show ?case by simp
next
  case (2 t tr r tasks)
  then show ?case by (cases r) (auto split: option.splits)
qed

lemma task_values_all:
  "\<forall>task\<in>set tasks. \<exists>x. snd (snd task) = Inr x \<Longrightarrow>
     map (\<lambda>task. snd (snd task)) tasks = map Inr (task_values tasks)"
  by (induction tasks rule: task_values.induct) auto

lemma gather_Inr_D:
  assumes "snd (gather tasks) = Inr rs"
  shows "map (\<lambda>task. snd (snd task)) tasks = map Inr rs"
proof -
  from assms have n: "first_exception tasks = None" and rs: "rs = task_values tasks"
    by (auto simp: gather_def split: option.splits)
  from n have "\<forall>task\<in>set tasks. \<exists>x. snd (snd task) = Inr x"
    by (simp only: first_exception_None)
  then show ?thesis unfolding rs by (rule task_values_all)
qed

lemma gather_Inr_I:
  assumes "map (\<lambda>task. snd (snd task)) tasks = map Inr rs"
  shows "snd (gather tasks) = Inr rs"
proof -
  have a: "\<forall>task\<in>set tasks. \<exists>x. snd (snd task) = Inr x"
  proof
    fix task assume "task \<in> set tasks"
    then have "snd (snd task) \<in> set (map (\<lambda>task. snd (snd task)) tasks)" by simp
    then have "snd (snd task) \<in> set (map Inr rs)" by (simp only: assms)
    then show "\<exists>x. snd (snd task) = Inr x" by auto
  qed
  then have n: "first_exception tasks = None" by (simp only: first_exception_None)
  have "map Inr (task_values tasks) = map Inr rs"
    using task_values_all [OF a] assms by simp
  then have "task_values tasks = rs" by simp
  then show ?thesis using n by (simp add: gather_def)
qed

lemma fetch_result_id:
  assumes "snd (fetch_certificate_data env cid timeout rc rd) = Inr v"
  shows "\<exists>w. v = Some w \<and> fst w = cid"
proof -
  from fetch_cases [OF assms] show ?thesis
  proof
    assume "\<exists>w. v = Some w \<and>
      snd (attempts_loop (pages env) cid timeout rc rd [1..rc + 1]) = Return w"
    then obtain w where w: "v = Some w"
      "snd (attempts_loop (pages env) cid timeout rc rd [1..rc + 1]) = Return w" by blast
    from w(2) have "fst w = cid" by (rule loop_Return_id)
    with w(1) show ?thesis by blast
  next
    assume "v = Some (cid, error_str, error_str)"
    then show ?thesis by simp
  qed
qed

lemma batch_loop_tasks:
  "map (\<lambda>task. snd (snd task)) (snd (batch_loop wenv timeout rc rd rate_limit index ids))
     = map (\<lambda>j. snd (fetch_certificate_data (wenv (index + j)) (ids ! j) timeout rc rd))
         [0..<length ids]"
proof (induction ids arbitrary: index)
  case Nil
  then show ?case by simp
next
  case (Cons c ids)
  obtain tr tasks where b: "batch_loop wenv timeout rc rd rate_limit (Suc index) ids = (tr, tasks)"
    by (cases "batch_loop wenv timeout rc rd rate_limit (Suc index) ids")
  have ih: "map (\<lambda>task. snd (snd task)) tasks
     = map (\<lambda>j. snd (fetch_certificate_data (wenv (Suc index + j)) (ids ! j) timeout rc rd))
         [0..<length ids]"
    using Cons.IH [of "Suc index"] b by simp
  have u: "[0..<length (c # ids)] = 0 # map Suc [0..<length ids]"
    by (simp add: upt_conv_Cons map_Suc_upt del: upt_Suc)
  show ?case
    unfolding u using b ih by (simp add: comp_def)
qed

lemma batch_snd:
  "snd (snd (process_certificate_batch wenv ids timeout rc rd rate_limit))
     = snd (gather (snd (batch_loop wenv timeout rc rd rate_limit 0 ids)))"
  by (cases "batch_loop wenv timeout rc rd rate_limit 0 ids";
      cases "gather (snd (batch_loop wenv timeout rc rd rate_limit 0 ids))")
     (simp add: process_certificate_batch_def)


lemma batch_task_results:
  "snd (snd (process_certificate_batch wenv ids timeout rc rd rate_limit)) = Inr rs \<longleftrightarrow>
     map (\<lambda>j. snd (fetch_certificate_data (wenv j) (ids ! j) timeout rc rd)) [0..<length ids]
       = map Inr rs"
proof -
  have "map (\<lambda>task. snd (snd task)) (snd (batch_loop wenv timeout rc rd rate_limit 0 ids))
     = map (\<lambda>j. snd (fetch_certificate_data (wenv j) (ids ! j) timeout rc rd)) [0..<length ids]"
    using batch_loop_tasks [of wenv timeout rc rd rate_limit 0 ids] by simp
  then show ?thesis
    using gather_Inr_D [of "snd (batch_loop wenv timeout rc rd rate_limit 0 ids)" rs]
      gather_Inr_I [of "snd (batch_loop wenv timeout rc rd rate_limit 0 ids)" rs]
    by (auto simp only: batch_snd)
qed

lemma batch_results:
  assumes "snd (snd (process_certificate_batch wenv ids timeout rc rd rate_limit)) = Inr rs"
  shows "map (map_option fst) rs = map Some ids"
proof -
  have m: "map (\<lambda>j. snd (fetch_certificate_data (wenv j) (ids ! j) timeout rc rd))
             [0..<length ids] = map Inr rs"
    using assms by (simp only: batch_task_results)
  have "length (map (\<lambda>j. snd (fetch_certificate_data (wenv j) (ids ! j) timeout rc rd))
             [0..<length ids]) = length (map Inr rs :: (exn + (pystr \<times> pystr \<times> pystr) option) list)"
    using m by simp
  then have l: "length rs = length ids" by simp
  show ?thesis
  proof (rule nth_equalityI)
    show "length (map (map_option fst) rs) = length (map Some ids)" using l by simp
  next
    fix j assume "j < length (map (map_option fst) rs)"
    then have j: "j < length ids" using l by simp
    have "map (\<lambda>j. snd (fetch_certificate_data (wenv j) (ids ! j) timeout rc rd))
             [0..<length ids] ! j = map Inr rs ! j"
      using m by simp
    then have "snd (fetch_certificate_data (wenv j) (ids ! j) timeout rc rd) = Inr (rs ! j)"
      using j l by simp
    then obtain w where "rs ! j = Some w" "fst w = ids ! j"
      using fetch_result_id by blast
    then show "map (map_option fst) rs ! j = map Some ids ! j"
      using j l by simp
  qed
qed

lemma batch_returns:
  assumes "\<forall>j<length ids. \<forall>e. snd (fetch_certificate_data (wenv j) (ids ! j) timeout rc rd) \<noteq> Inl e"
  shows "\<exists>rs. snd (snd (process_certificate_batch wenv ids timeout rc rd rate_limit)) = Inr rs"
proof -
  let ?f = "\<lambda>j. snd (fetch_certificate_data (wenv j) (ids ! j) timeout rc rd)"
  have "\<And>j. j < length ids \<Longrightarrow> ?f j = Inr (projr (?f j))"
  proof -
    fix j assume "j < length ids"
    then have "\<forall>e. ?f j \<noteq> Inl e" using assms by blast
    then show "?f j = Inr (projr (?f j))" by (cases "?f j") simp_all
  qed
  then have "map ?f [0..<length ids] = map Inr (map (\<lambda>j. projr (?f j)) [0..<length ids])"
    by simp
  then have "snd (snd (process_certificate_batch wenv ids timeout rc rd rate_limit))
               = Inr (map (\<lambda>j. projr (?f j)) [0..<length ids])"
    by (simp only: batch_task_results)
  then show ?thesis by blast
qed

section \<open>The results of all windows\<close>

lemma windows_loop_results:
  "0 < args_concurrency a \<Longrightarrow> 0 \<le> i \<Longrightarrow>
   snd (windows_loop wenv ids a i acc) = Inr rs \<Longrightarrow>
   \<exists>rs'. rs = acc @ rs' \<and> map (map_option fst) rs' = map Some (drop (nat i) ids)"
proof (induction wenv ids a i acc arbitrary: rs rule: windows_loop.induct)
  case (1 wenv ids a i acc)
  let ?c = "args_concurrency a"
  let ?batch = "take (nat ?c) (drop (nat i) ids)"
  show ?case
  proof (cases "i < int (length ids)")
    case False
    then have "windows_loop wenv ids a i acc = ([], Inr acc)"
      by (simp add: windows_loop.simps [of wenv ids a i acc])
    then show ?thesis using "1.prems" False by simp
  next
    case True
    obtain tr trs r where b:
      "process_certificate_batch (\<lambda>j. wenv (nat i + j)) ?batch
         (args_timeout a) (args_retries a) (args_delay a) (args_rate_limit a) = (tr, trs, r)"
      by (metis prod_cases3)
    show ?thesis
    proof (cases r)
      case (Inl e)
      then have "snd (windows_loop wenv ids a i acc) = Inl e"
        using True "1.prems"(1) b by (simp add: windows_loop.simps [of wenv ids a i acc])
      then show ?thesis using "1.prems"(3) by simp
    next
      case (Inr results)
      obtain evs q where w:
        "windows_loop wenv ids a (i + ?c) (acc @ results) = (evs, q)"
        by (cases "windows_loop wenv ids a (i + ?c) (acc @ results)")
      have "snd (windows_loop wenv ids a i acc) = q"
        using True "1.prems"(1) b Inr w by (simp add: windows_loop.simps [of wenv ids a i acc])
      then have q: "q = Inr rs" using "1.prems"(3) by simp
      have "\<exists>rs'. rs = (acc @ results) @ rs' \<and>
              map (map_option fst) rs' = map Some (drop (nat (i + ?c)) ids)"
      proof (rule "1.IH")
        show "0 < ?c \<and> i < int (length ids)" using True "1.prems"(1) by simp
        show "(tr, trs, r) = process_certificate_batch (\<lambda>j. wenv (nat i + j)) ?batch
         (args_timeout a) (args_retries a) (args_delay a) (args_rate_limit a)"
          using b by simp
        show "(trs, r) = (trs, r)" by simp
        show "r = Inr results" by (rule Inr)
        show "0 < ?c" by (rule "1.prems"(1))
        show "0 \<le> i + ?c" using "1.prems"(1,2) by simp
        show "snd (windows_loop wenv ids a (i + ?c) (acc @ results)) = Inr rs"
          using w q by simp
      qed
      then obtain rs'' where r2: "rs = (acc @ results) @ rs''"
        "map (map_option fst) rs'' = map Some (drop (nat (i + ?c)) ids)" by blast
      have r1: "map (map_option fst) results = map Some ?batch"
        using batch_results [of "\<lambda>j. wenv (nat i + j)" ?batch "args_timeout a" "args_retries a"
            "args_delay a" "args_rate_limit a" results] b Inr by simp
      have "nat (i + ?c) = nat ?c + nat i" using "1.prems"(1,2) by simp
      then have "drop (nat ?c) (drop (nat i) ids) = drop (nat (i + ?c)) ids"
        by (simp only: drop_drop)
      moreover have "?batch @ drop (nat ?c) (drop (nat i) ids) = drop (nat i) ids"
        by (rule append_take_drop_id)
      ultimately have "?batch @ drop (nat (i + ?c)) ids = drop (nat i) ids"
        by (simp only:)
      then have "map (map_option fst) (results @ rs'') = map Some (drop (nat i) ids)"
        using r1 r2(2) by (metis map_append)
      then show ?thesis using r2(1) by auto
    qed
  qed
qed


lemma windows_loop_returns:
  "0 < args_concurrency a \<Longrightarrow> 0 \<le> i \<Longrightarrow>
   \<forall>j<length ids. \<forall>e.
      snd (fetch_certificate_data (wenv j) (ids ! j) (args_timeout a) (args_retries a)
             (args_delay a)) \<noteq> Inl e \<Longrightarrow>
   \<exists>rs. snd (windows_loop wenv ids a i acc) = Inr rs"
proof (induction wenv ids a i acc rule: windows_loop.induct)
  case (1 wenv ids a i acc)
  let ?c = "args_concurrency a"
  let ?batch = "take (nat ?c) (drop (nat i) ids)"
  show ?case
  proof (cases "i < int (length ids)")
    case False
    then have "windows_loop wenv ids a i acc = ([], Inr acc)"
      by (simp add: windows_loop.simps [of wenv ids a i acc])
    then show ?thesis by simp
  next
    case True
    obtain tr trs r where b:
      "process_certificate_batch (\<lambda>j. wenv (nat i + j)) ?batch
         (args_timeout a) (args_retries a) (args_delay a) (args_rate_limit a) = (tr, trs, r)"
      by (metis prod_cases3)
    have "\<forall>j<length ?batch. \<forall>e.
            snd (fetch_certificate_data (wenv (nat i + j)) (?batch ! j) (args_timeout a)
                   (args_retries a) (args_delay a)) \<noteq> Inl e"
    proof (intro allI impI)
      fix j e assume j: "j < length ?batch"
      then have "nat i + j < length ids" by auto
      moreover have "nat i \<le> length ids" using True by simp
      then have "?batch ! j = ids ! (nat i + j)" using j by simp
      ultimately show "snd (fetch_certificate_data (wenv (nat i + j)) (?batch ! j)
                   (args_timeout a) (args_retries a) (args_delay a)) \<noteq> Inl e"
        using "1.prems"(3) by simp
    qed
    then obtain results where res: "r = Inr results"
      using batch_returns [of ?batch "\<lambda>j. wenv (nat i + j)" "args_timeout a" "args_retries a"
          "args_delay a" "args_rate_limit a"] b by auto
    obtain evs q where w:
      "windows_loop wenv ids a (i + ?c) (acc @ results) = (evs, q)"
      by (cases "windows_loop wenv ids a (i + ?c) (acc @ results)")
    have s: "snd (windows_loop wenv ids a i acc) = q"
      using True "1.prems"(1) b res w by (simp add: windows_loop.simps [of wenv ids a i acc])
    have "\<exists>rs. snd (windows_loop wenv ids a (i + ?c) (acc @ results)) = Inr rs"
    proof (rule "1.IH")
      show "0 < ?c \<and> i < int (length ids)" using True "1.prems"(1) by simp
      show "(tr, trs, r) = process_certificate_batch (\<lambda>j. wenv (nat i + j)) ?batch
         (args_timeout a) (args_retries a) (args_delay a) (args_rate_limit a)"
        using b by simp
      show "(trs, r) = (trs, r)" by simp
      show "r = Inr results" by (rule res)
      show "0 < ?c" by (rule "1.prems"(1))
      show "0 \<le> i + ?c" using "1.prems"(1,2) by simp
      show "\<forall>j<length ids. \<forall>e.
         snd (fetch_certificate_data (wenv j) (ids ! j) (args_timeout a) (args_retries a)
             (args_delay a)) \<noteq> Inl e"
        by (rule "1.prems"(3))
    qed
    then show ?thesis using s w by simp
  qed
qed

section \<open>main and the exit status\<close>

lemma py_strip_blank: "py_strip l = [] \<longleftrightarrow> (\<forall>c\<in>set l. py_isspace c)"
proof
  assume "py_strip l = []"
  then have a: "\<forall>c\<in>set (dropWhile py_isspace l). py_isspace c"
    by (simp add: py_strip_def)
  have "dropWhile py_isspace l = []"
  proof (rule ccontr)
    assume n: "dropWhile py_isspace l \<noteq> []"
    then have "\<not> py_isspace (hd (dropWhile py_isspace l))" by (rule hd_dropWhile)
    moreover have "hd (dropWhile py_isspace l) \<in> set (dropWhile py_isspace l)"
      using n by simp
    ultimately show False using a by blast
  qed
  then show "\<forall>c\<in>set l. py_isspace c" by simp
next
  assume "\<forall>c\<in>set l. py_isspace c"
  then have h: "dropWhile py_isspace l = []" by simp
  show "py_strip l = []" by (simp only: py_strip_def h rev.simps dropWhile.simps)
qed






section \<open>The scenario of three identifiers\<close>

text \<open>
  Identifiers A1, A2, A3 with a window size of 2 and one retry, where A1 and A3 are
  fetched and every attempt for A2 times out: the results come in input order, with the
  sentinel pair for A2.
\<close>

lemma scenario_three_ids:
  "snd (iterate_windows (workers (example_env []))
          [str_lit ''A1'', str_lit ''A2'', str_lit ''A3''] example_args)
     = Inr [Some (str_lit ''A1'', str_lit ''Pika chu'', str_lit ''10''),
            Some (str_lit ''A2'', str_lit ''Error'', str_lit ''Error''),
            Some (str_lit ''A3'', str_lit ''Pika chu'', str_lit ''10'')]"
  by (simp add: model_defs upto_rec1)

section \<open>The claims\<close>

text \<open>
  Claim C1, as amended. For every window size of at least 1 and every identifier list: when the loop
  over the windows ends with a result list, that list has one entry per identifier, in
  the order of the input; and it does end with a result list whenever no worker raises.
\<close>

theorem C1_results_follow_input:
  assumes "0 < args_concurrency a"
  shows "(\<forall>rs. snd (iterate_windows wenv certificate_ids a) = Inr rs \<longrightarrow>
            length rs = length certificate_ids \<and>
            map (map_option fst) rs = map Some certificate_ids) \<and>
         ((\<forall>j<length certificate_ids. \<forall>e.
             snd (fetch_certificate_data (wenv j) (certificate_ids ! j) (args_timeout a)
                    (args_retries a) (args_delay a)) \<noteq> Inl e) \<longrightarrow>
          (\<exists>rs. snd (iterate_windows wenv certificate_ids a) = Inr rs))"
proof -
  have it: "iterate_windows wenv certificate_ids a = windows_loop wenv certificate_ids a 0 []"
    using assms by (simp add: iterate_windows_def)
  have 1: "\<forall>rs. snd (iterate_windows wenv certificate_ids a) = Inr rs \<longrightarrow>
            length rs = length certificate_ids \<and>
            map (map_option fst) rs = map Some certificate_ids"
  proof (intro allI impI)
    fix rs assume "snd (iterate_windows wenv certificate_ids a) = Inr rs"
    then have "snd (windows_loop wenv certificate_ids a 0 []) = Inr rs" by (simp only: it)
    then have m: "map (map_option fst) rs = map Some certificate_ids"
      using windows_loop_results [of a 0 wenv certificate_ids "[]" rs] assms by auto
    have "length rs = length (map (map_option fst) rs)" by simp
    also have "\<dots> = length (map Some certificate_ids)" by (simp only: m)
    finally have "length rs = length certificate_ids" by simp
    then show "length rs = length certificate_ids \<and>
            map (map_option fst) rs = map Some certificate_ids"
      using m by blast
  qed
  have 2: "(\<forall>j<length certificate_ids. \<forall>e.
             snd (fetch_certificate_data (wenv j) (certificate_ids ! j) (args_timeout a)
                    (args_retries a) (args_delay a)) \<noteq> Inl e) \<longrightarrow>
          (\<exists>rs. snd (iterate_windows wenv certificate_ids a) = Inr rs)"
    using windows_loop_returns [of a 0 certificate_ids wenv "[]"] assms
    by (simp only: it) simp
  show ?thesis using 1 2 by blast
qed

theorem C1_results_follow_input_witness:
  "(\<exists>rs. snd (iterate_windows (workers (example_env []))
               [str_lit ''A1'', str_lit ''A2'', str_lit ''A3''] example_args) = Inr rs \<and>
         length rs = length [str_lit ''A1'', str_lit ''A2'', str_lit ''A3''] \<and>
         map (map_option fst) rs = map Some [str_lit ''A1'', str_lit ''A2'', str_lit ''A3''])"
proof -
  have c: "0 < args_concurrency example_args" by (simp add: example_args_def)
  have r: "\<forall>j<length [str_lit ''A1'', str_lit ''A2'', str_lit ''A3'']. \<forall>e.
             snd (fetch_certificate_data (workers (example_env []) j)
                    ([str_lit ''A1'', str_lit ''A2'', str_lit ''A3''] ! j)
                    (args_timeout example_args) (args_retries example_args)
                    (args_delay example_args)) \<noteq> Inl e"
    by (simp add: model_defs upto_rec1)
  from C1_results_follow_input [OF c, of "workers (example_env [])"
      "[str_lit ''A1'', str_lit ''A2'', str_lit ''A3'']"] r
  show ?thesis by blast
qed

text \<open>
  Without the bound on the window size the claim fails: \<open>--concurrency -1\<close> is accepted,
  \<open>range(0, 1, -1)\<close> is empty, no window is run, and the script writes a report of the
  header alone and ends with status 0.
\<close>

theorem C1_negative_window_size_counterexample:
  "snd (iterate_windows (workers (example_env [])) [str_lit ''A1'']
          (example_args\<lparr>args_concurrency := - 1\<rparr>)) = Inr [] \<and>
   run_script (example_env [str_lit ''A1'']) (example_args\<lparr>args_concurrency := - 1\<rparr>)
     = ([LogLoaded 1, LaunchBrowser, CloseBrowser,
         OpenOutput (str_lit ''cert_lookup_results_20240101_000000.csv''), WriteHeader,
         WriteRows, LogSaved (str_lit ''cert_lookup_results_20240101_000000.csv'')],
        Written [csv_header], 0)"
  by (simp add: model_defs upto_rec1)

text \<open>
  Claim C2, at an input where it fails. Both attempts for A2 fail and \<open>save_debug_snapshot\<close>
  is called once, with the same identifier and timeout; but \<open>os.makedirs\<close> raises there,
  before the \<open>try\<close>, and no result is emitted: the outcome of the snapshot has changed
  the result. (When the snapshot call returns, the result is the sentinel triple:
  \<open>exhausted_retries_sentinel\<close>.)
\<close>

theorem C2_snapshot_failure_loses_result:
  "snd (iteration (pages worker_makedirs_fails 1) (str_lit ''A2'') 15000 1 2 1) = Continue \<and>
   snd (iteration (pages worker_makedirs_fails 2) (str_lit ''A2'') 15000 1 2 2) = Continue \<and>
   snapshots_of (fst (fetch_certificate_data worker_makedirs_fails (str_lit ''A2'') 15000 1 2))
     = [(str_lit ''A2'', 15000)] \<and>
   snd (fetch_certificate_data worker_makedirs_fails (str_lit ''A2'') 15000 1 2)
     \<noteq> Inr (Some (str_lit ''A2'', str_lit ''Error'', str_lit ''Error''))"
  by (simp add: model_defs upto_rec1)

text \<open>
  Claim C3, at an input where it fails. All pages time out, so the retries run out, and
  \<open>os.makedirs\<close> raises in \<open>save_debug_snapshot\<close>. The call stands before the \<open>try\<close>, so the
  exception leaves \<open>save_debug_snapshot\<close> and then \<open>fetch_certificate_data\<close>: the worker
  returns no result.
\<close>

theorem C3_exception_escapes_worker:
  "snd (save_debug_snapshot (snapshot worker_makedirs_fails) (str_lit ''A2'') 15000)
     = Inl (OtherException ''FileExistsError'') \<and>
   snd (fetch_certificate_data worker_makedirs_fails (str_lit ''A2'') 15000 1 2)
     = Inl (OtherException ''FileExistsError'')"
  by (simp add: model_defs upto_rec1)

text \<open>
  Claim C4, as amended. The sleep before attempt \<open>k\<close>, for \<open>k\<close> from 2 on, is
  \<open>retry_delay * k\<close>: the backoff sleeps of any run are an initial part of
  \<open>2 * retry_delay, 3 * retry_delay, ...\<close> up to \<open>(retry_count + 1) * retry_delay\<close>, all of
  it when every attempt fails; they increase strictly when \<open>retry_delay\<close> is positive;
  and attempt 1 has no backoff sleep.
\<close>

theorem C4_backoff_delays:
  "prefix (sleeps_of Backoff (fst (fetch_certificate_data env certificate_id timeout
                                     retry_count retry_delay)))
          (map (\<lambda>k. retry_delay * real_of_int k) [2..retry_count + 1]) \<and>
   ((\<forall>k\<in>set [1..retry_count + 1].
        snd (iteration (pages env k) certificate_id timeout retry_count retry_delay k)
          = Continue) \<longrightarrow>
      sleeps_of Backoff (fst (fetch_certificate_data env certificate_id timeout
                                retry_count retry_delay))
        = map (\<lambda>k. retry_delay * real_of_int k) [2..retry_count + 1]) \<and>
   (0 < retry_delay \<longrightarrow>
      sorted_wrt (<) (sleeps_of Backoff (fst (fetch_certificate_data env certificate_id
                                                timeout retry_count retry_delay)))) \<and>
   sleeps_of Backoff (fst (iteration (pages env 1) certificate_id timeout retry_count
                             retry_delay 1)) = []"
proof -
  let ?tr = "fst (fetch_certificate_data env certificate_id timeout retry_count retry_delay)"
  let ?lp = "attempts_loop (pages env) certificate_id timeout retry_count retry_delay
               [1..retry_count + 1]"
  let ?ds = "map (\<lambda>k. retry_delay * real_of_int k) [2..retry_count + 1]"
  have eq: "sleeps_of Backoff ?tr = sleeps_of Backoff (fst ?lp)"
    by (simp add: fetch_trace sleeps_of_append save_debug_snapshot_obs)
  have p: "prefix (sleeps_of Backoff ?tr) ?ds"
    using attempts_loop_prefix [of "pages env" certificate_id timeout retry_count retry_delay
        "[1..retry_count + 1]"]
    by (simp add: eq filter_upto_gt1)
  have f: "(\<forall>k\<in>set [1..retry_count + 1].
        snd (iteration (pages env k) certificate_id timeout retry_count retry_delay k)
          = Continue) \<longrightarrow> sleeps_of Backoff ?tr = ?ds"
  proof
    assume a: "\<forall>k\<in>set [1..retry_count + 1].
        snd (iteration (pages env k) certificate_id timeout retry_count retry_delay k)
          = Continue"
    show "sleeps_of Backoff ?tr = ?ds"
      using attempts_loop_fails [OF a] by (simp add: eq filter_upto_gt1)
  qed
  have s: "0 < retry_delay \<longrightarrow> sorted_wrt (<) (sleeps_of Backoff ?tr)"
    using p backoff_sorted sorted_wrt_prefix by blast
  have z: "sleeps_of Backoff (fst (iteration (pages env 1) certificate_id timeout retry_count
                             retry_delay 1)) = []"
    by (simp add: iteration_backoff)
  show ?thesis using p f s z by blast
qed

theorem C4_backoff_delays_witness:
  "sleeps_of Backoff (fst (fetch_certificate_data worker_timeout (str_lit ''A2'') 15000 2 2))
     = map (\<lambda>k. 2 * real_of_int k) [2..2 + 1] \<and>
   sorted_wrt (<)
     (sleeps_of Backoff (fst (fetch_certificate_data worker_timeout (str_lit ''A2'') 15000 2 2)))"
proof -
  have h: "\<forall>k\<in>set [1..2 + 1].
             snd (iteration (pages worker_timeout k) (str_lit ''A2'') 15000 2 2 k) = Continue"
    by (simp add: iteration_Continue_iff)
       (simp add: model_defs)
  have d: "(0::real) < 2" by simp
  from C4_backoff_delays [of worker_timeout "str_lit ''A2''" 15000 2 2] h d
  show ?thesis by blast
qed

text \<open>
  The progression does not start at \<open>retry_delay\<close>: with a delay of 2 and two retries
  the sleeps are 4 and 6, not 2 and 4. With a delay of 0 they do not increase.
\<close>

theorem C4_backoff_progression_counterexample:
  "sleeps_of Backoff (fst (fetch_certificate_data worker_timeout (str_lit ''A2'') 15000 2 2))
     = [4, 6] \<and>
   sleeps_of Backoff (fst (fetch_certificate_data worker_timeout (str_lit ''A2'') 15000 2 2))
     \<noteq> [2 * 1, 2 * 2] \<and>
   sleeps_of Backoff (fst (fetch_certificate_data worker_timeout (str_lit ''A2'') 15000 2 0))
     = [0, 0] \<and>
   \<not> sorted_wrt (<)
     (sleeps_of Backoff (fst (fetch_certificate_data worker_timeout (str_lit ''A2'') 15000 2 0)))"
  by (simp add: model_defs upto_rec1)

text \<open>
  Claim C5. For \<open>retry_count\<close> at least 0 and every attempt failing, the attempts made are
  numbered 1 to \<open>retry_count + 1\<close>, so there are \<open>retry_count + 1\<close> of them, and attempt
  \<open>k + 1\<close> follows attempt \<open>k\<close> exactly when \<open>k\<close> is at most \<open>retry_count\<close>.
\<close>

theorem C5_attempt_count:
  assumes "0 \<le> retry_count"
    and "\<forall>k\<in>set [1..retry_count + 1].
           snd (iteration (pages env k) certificate_id timeout retry_count retry_delay k)
             = Continue"
  shows "attempts_of (fst (fetch_certificate_data env certificate_id timeout retry_count
                             retry_delay)) = [1..retry_count + 1] \<and>
         int (length (attempts_of (fst (fetch_certificate_data env certificate_id timeout
                                          retry_count retry_delay)))) = retry_count + 1 \<and>
         (\<forall>k. 1 \<le> k \<longrightarrow>
            (k + 1 \<in> set (attempts_of (fst (fetch_certificate_data env certificate_id
                                              timeout retry_count retry_delay)))
               \<longleftrightarrow> k \<le> retry_count))"
proof -
  let ?tr = "fst (fetch_certificate_data env certificate_id timeout retry_count retry_delay)"
  have a: "attempts_of ?tr = [1..retry_count + 1]"
    using attempts_loop_fails [OF assms(2)]
    by (simp add: fetch_trace attempts_of_append save_debug_snapshot_obs)
  have l: "int (length (attempts_of ?tr)) = retry_count + 1"
    using assms(1) by (simp add: a)
  have r: "\<forall>k. 1 \<le> k \<longrightarrow> (k + 1 \<in> set (attempts_of ?tr) \<longleftrightarrow> k \<le> retry_count)"
    by (auto simp: a)
  show ?thesis using a l r by blast
qed

theorem C5_attempt_count_witness:
  "attempts_of (fst (fetch_certificate_data worker_timeout (str_lit ''A2'') 15000 3 2))
     = [1..3 + 1] \<and>
   int (length (attempts_of (fst (fetch_certificate_data worker_timeout (str_lit ''A2'')
                                    15000 3 2)))) = 3 + 1"
proof -
  have h: "\<forall>k\<in>set [1..3 + 1].
             snd (iteration (pages worker_timeout k) (str_lit ''A2'') 15000 3 2 k) = Continue"
    by (simp add: iteration_Continue_iff)
       (simp add: model_defs)
  have z: "(0::int) \<le> 3" by simp
  from C5_attempt_count [OF z h] show ?thesis by blast
qed

text \<open>
  Claim C6, at an input where it fails. With three identifiers and a rate limit of 1
  second the loop sleeps twice between the \<open>tasks.append\<close> calls, but these only make
  coroutine objects: all three workers start at \<open>asyncio.gather\<close>, 2 seconds after the
  call. The item at index 0 is delayed by 2 seconds, not 0, and no two dispatches are
  1 second apart. (Where the loop sleeps is \<open>rate_limit_sleeps\<close>; the start times for any
  batch are \<open>batch_start_times_pos\<close>.)
\<close>

theorem C6_workers_start_after_all_sleeps:
  "fst (process_certificate_batch (\<lambda>j. worker_timeout)
          [str_lit ''A1'', str_lit ''A2'', str_lit ''A3''] 15000 1 2 1)
     = [TaskAppended (str_lit ''A1''),
        Sleep RateLimit 1, TaskAppended (str_lit ''A2''),
        Sleep RateLimit 1, TaskAppended (str_lit ''A3'')] \<and>
   batch_start_times (\<lambda>j. worker_timeout)
     [str_lit ''A1'', str_lit ''A2'', str_lit ''A3''] 15000 1 2 1 = [2, 2, 2] \<and>
   batch_start_times (\<lambda>j. worker_timeout)
     [str_lit ''A1'', str_lit ''A2'', str_lit ''A3''] 15000 1 2 1 \<noteq> [0, 1, 2]"
  by (simp add: model_defs upto_rec1)

text \<open>
  Claim C7. When the input path does not exist, or reading it raises an \<open>Exception\<close>, or
  every line is blank (whitespace only, so that no identifier is left), the process ends
  with status 1, the report file is not opened, and nothing but log lines happened: no
  browser launch, no window, no fetch.
\<close>

theorem C7_bad_input_exits:
  assumes "\<not> path_exists env \<or>
           (\<exists>e. read_lines env = Inl e \<and> is_Exception e) \<or>
           (\<exists>lines. read_lines env = Inr lines \<and>
                    (\<forall>line\<in>set lines. \<forall>c\<in>set line. py_isspace c))"
  shows "snd (snd (run_script env a)) = 1 \<and>
         fst (snd (run_script env a)) = NotWritten \<and>
         (\<forall>ev\<in>set (fst (run_script env a)). is_log ev)"
proof -
  from assms consider
    (missing) "\<not> path_exists env" |
    (unreadable) e where "path_exists env" "read_lines env = Inl e" "is_Exception e" |
    (blank) lines where "path_exists env" "read_lines env = Inr lines"
      "\<forall>line\<in>set lines. \<forall>c\<in>set line. py_isspace c"
    by blast
  then show ?thesis
  proof cases
    case missing
    then have "main env a = ([LogInputNotFound (args_input a)], NotWritten, SysExit 1)"
      by (simp add: main_def)
    then show ?thesis by (simp add: run_script_def)
  next
    case unreadable
    then have "main env a = ([LogReadFailed e], NotWritten, SysExit 1)"
      by (simp add: main_def)
    then show ?thesis by (simp add: run_script_def)
  next
    case blank
    then have "filter (\<lambda>line. py_strip line \<noteq> []) lines = []"
      by (simp add: filter_empty_conv py_strip_blank)
    then have "main env a = ([LogNoIds], NotWritten, SysExit 1)"
      using blank by (simp add: main_def)
    then show ?thesis by (simp add: run_script_def)
  qed
qed

theorem C7_bad_input_exits_witness:
  "snd (snd (run_script ((example_env [])\<lparr>path_exists := False\<rparr>) example_args)) = 1 \<and>
   fst (snd (run_script
              ((example_env [])\<lparr>read_lines := Inl (OtherException ''PermissionError'')\<rparr>)
              example_args)) = NotWritten \<and>
   snd (snd (run_script (example_env [str_lit ''  '', [10]]) example_args)) = 1"
proof -
  have 1: "\<not> path_exists ((example_env [])\<lparr>path_exists := False\<rparr>)" by simp
  have 2: "\<exists>e. read_lines ((example_env [])\<lparr>read_lines := Inl (OtherException ''PermissionError'')\<rparr>)
             = Inl e \<and> is_Exception e" by simp
  have 3: "\<exists>lines. read_lines (example_env [str_lit ''  '', [10]]) = Inr lines \<and>
                    (\<forall>line\<in>set lines. \<forall>c\<in>set line. py_isspace c)"
    by (simp add: example_env_def str_lit_def py_isspace_def)
  from C7_bad_input_exits [of "(example_env [])\<lparr>path_exists := False\<rparr>" example_args]
    C7_bad_input_exits [of "(example_env [])\<lparr>read_lines := Inl (OtherException ''PermissionError'')\<rparr>" example_args]
    C7_bad_input_exits [of "example_env [str_lit ''  '', [10]]" example_args]
    1 2 3
  show ?thesis by blast
qed



text \<open>
  Claim C9. When the loop of \<open>fetch_certificate_data\<close> ends in the \<open>return\<close> of line
  70, the function returns that triple, and there is an attempt whose two
  \<open>text_content()\<close> values gave it. The card name is what the words of the specification
  make of the raw name (\<open>spec_collapse\<close>: every run of whitespace replaced by one space,
  the spaces at the two ends removed); it has the code points of the raw name that are
  not whitespace, in order, no whitespace at either end, every whitespace code point a
  single space (U+0020) and no two whitespace code points next to each other. The grade
  is the raw grade without the whitespace at its two ends.
\<close>

theorem C9_extraction_normalises:
  assumes "snd (attempts_loop (pages env) certificate_id timeout retry_count retry_delay
                  [1..retry_count + 1]) = Return (c, card_name, grade)"
  shows "snd (fetch_certificate_data env certificate_id timeout retry_count retry_delay)
           = Inr (Some (c, card_name, grade)) \<and>
         (\<exists>attempt raw_name raw_grade.
            1 \<le> attempt \<and> attempt \<le> retry_count + 1 \<and>
            name_text (pages env attempt) = Inr (Some raw_name) \<and>
            grade_text (pages env attempt) = Inr (Some raw_grade) \<and>
            c = certificate_id \<and>
            card_name = py_join (str_lit '' '') (py_split raw_name) \<and>
            card_name = spec_collapse raw_name \<and>
            filter (\<lambda>x. \<not> py_isspace x) card_name
              = filter (\<lambda>x. \<not> py_isspace x) raw_name \<and>
            py_split card_name = py_split raw_name \<and>
            single_spaced card_name \<and>
            (\<forall>x\<in>set card_name. py_isspace x \<longrightarrow> x = 32) \<and>
            (card_name \<noteq> [] \<longrightarrow>
               \<not> py_isspace (hd card_name) \<and> \<not> py_isspace (last card_name)) \<and>
            grade = py_strip raw_grade \<and>
            (\<exists>l r. raw_grade = l @ grade @ r \<and>
                   (\<forall>x\<in>set l. py_isspace x) \<and> (\<forall>x\<in>set r. py_isspace x)) \<and>
            (grade \<noteq> [] \<longrightarrow> \<not> py_isspace (hd grade) \<and> \<not> py_isspace (last grade)))"
proof -
  from assms obtain attempt where
    k: "attempt \<in> set [1..retry_count + 1]" and
    it: "snd (iteration (pages env attempt) certificate_id timeout retry_count retry_delay attempt)
           = Return (c, card_name, grade)"
    using attempts_loop_Return by blast
  from it have "snd (try_body (pages env attempt) certificate_id timeout retry_count retry_delay attempt)
                  = Inr (c, card_name, grade)"
    by (rule iteration_Return)
  then obtain raw_name raw_grade where
    rn: "name_text (pages env attempt) = Inr (Some raw_name)" and
    rg: "grade_text (pages env attempt) = Inr (Some raw_grade)" and
    c: "c = certificate_id" and
    n: "card_name = py_join [32] (py_split raw_name)" and
    g: "grade = py_strip raw_grade"
    using try_body_Inr by blast
  have words: "\<forall>w\<in>set (py_split raw_name). w \<noteq> [] \<and> (\<forall>x\<in>set w. \<not> py_isspace x)"
    using py_split_words by blast
  have p1: "py_split card_name = py_split raw_name"
    unfolding n using words by (rule py_split_join)
  have q1: "card_name = spec_collapse raw_name"
    unfolding n by (rule join_split_is_collapse)
  have "filter (\<lambda>x. \<not> py_isspace x) card_name = concat (py_split card_name)"
    by (simp only: py_split_concat)
  also have "\<dots> = concat (py_split raw_name)" by (simp only: p1)
  also have "\<dots> = filter (\<lambda>x. \<not> py_isspace x) raw_name"
    by (simp only: py_split_concat)
  finally have q2: "filter (\<lambda>x. \<not> py_isspace x) card_name
                      = filter (\<lambda>x. \<not> py_isspace x) raw_name" .
  have p2: "single_spaced card_name"
    unfolding n using words by (rule py_join_single_spaced)
  have p3: "\<forall>x\<in>set card_name. py_isspace x \<longrightarrow> x = 32"
    unfolding n using words py_join_ws_chars by blast
  have p4: "card_name \<noteq> [] \<longrightarrow> \<not> py_isspace (hd card_name) \<and> \<not> py_isspace (last card_name)"
  proof
    assume ne: "card_name \<noteq> []"
    then have "py_split raw_name \<noteq> []" using n by auto
    then show "\<not> py_isspace (hd card_name) \<and> \<not> py_isspace (last card_name)"
      unfolding n using words py_join_hd py_join_last by blast
  qed
  have p5: "\<exists>l r. raw_grade = l @ grade @ r \<and>
                 (\<forall>x\<in>set l. py_isspace x) \<and> (\<forall>x\<in>set r. py_isspace x)"
    unfolding g by (rule py_strip_decomp)
  have p6: "grade \<noteq> [] \<longrightarrow> \<not> py_isspace (hd grade) \<and> \<not> py_isspace (last grade)"
    unfolding g using py_strip_ends by blast
  have r: "snd (fetch_certificate_data env certificate_id timeout retry_count retry_delay)
             = Inr (Some (c, card_name, grade))"
    using assms by (rule fetch_Return)
  have k': "1 \<le> attempt \<and> attempt \<le> retry_count + 1" using k by simp
  have n': "card_name = py_join (str_lit '' '') (py_split raw_name)"
    using n by (simp add: str_lit_space)
  show ?thesis
    using r k' rn rg c n' q1 q2 p1 p2 p3 p4 g p5 p6 by blast
qed

theorem C9_extraction_normalises_witness:
  "snd (attempts_loop (pages (worker_ok (str_lit '' Pika   chu '') (str_lit '' 10 '')))
          (str_lit ''A1'') 15000 3 2 [1..3 + 1])
     = Return (str_lit ''A1'', str_lit ''Pika chu'', str_lit ''10'') \<and>
   snd (fetch_certificate_data (worker_ok (str_lit '' Pika   chu '') (str_lit '' 10 ''))
          (str_lit ''A1'') 15000 3 2)
     = Inr (Some (str_lit ''A1'', str_lit ''Pika chu'', str_lit ''10''))"
proof -
  have h: "snd (attempts_loop (pages (worker_ok (str_lit '' Pika   chu '') (str_lit '' 10 '')))
          (str_lit ''A1'') 15000 3 2 [1..3 + 1])
     = Return (str_lit ''A1'', str_lit ''Pika chu'', str_lit ''10'')"
    by (simp add: model_defs upto_rec1)
  from C9_extraction_normalises [OF h] h show ?thesis by blast
qed

text \<open>
  Claim C10, as amended. \<open>fetch_certificate_data\<close> never returns \<open>None\<close>. A value it
  returns is a triple of the given identifier and either the card name and grade
  extracted in one of the attempts (the name with its whitespace collapsed, the grade
  trimmed) or \<open>"Error"\<close> twice, the latter only when every attempt failed. A call that
  does not raise returns such a triple.
\<close>

theorem C10_never_returns_None:
  "snd (fetch_certificate_data env certificate_id timeout retry_count retry_delay) \<noteq> Inr None \<and>
   (\<forall>v. snd (fetch_certificate_data env certificate_id timeout retry_count retry_delay)
           = Inr (Some v) \<longrightarrow>
      (\<exists>attempt raw_name raw_grade.
          1 \<le> attempt \<and> attempt \<le> retry_count + 1 \<and>
          name_text (pages env attempt) = Inr (Some raw_name) \<and>
          grade_text (pages env attempt) = Inr (Some raw_grade) \<and>
          v = (certificate_id, py_join (str_lit '' '') (py_split raw_name),
               py_strip raw_grade)) \<or>
      (v = (certificate_id, str_lit ''Error'', str_lit ''Error'') \<and>
       (\<forall>k\<in>set [1..retry_count + 1].
          snd (iteration (pages env k) certificate_id timeout retry_count retry_delay k)
            = Continue))) \<and>
   ((\<forall>e. snd (fetch_certificate_data env certificate_id timeout retry_count retry_delay)
            \<noteq> Inl e) \<longrightarrow>
      (\<exists>card_name grade.
         snd (fetch_certificate_data env certificate_id timeout retry_count retry_delay)
           = Inr (Some (certificate_id, card_name, grade))))"
proof -
  let ?r = "snd (fetch_certificate_data env certificate_id timeout retry_count retry_delay)"
  let ?lp = "snd (attempts_loop (pages env) certificate_id timeout retry_count retry_delay
                    [1..retry_count + 1])"
  have 1: "?r \<noteq> Inr None"
    using fetch_cases [of env certificate_id timeout retry_count retry_delay None] by auto
  have 2: "\<forall>v. ?r = Inr (Some v) \<longrightarrow>
      (\<exists>attempt raw_name raw_grade.
          1 \<le> attempt \<and> attempt \<le> retry_count + 1 \<and>
          name_text (pages env attempt) = Inr (Some raw_name) \<and>
          grade_text (pages env attempt) = Inr (Some raw_grade) \<and>
          v = (certificate_id, py_join (str_lit '' '') (py_split raw_name),
               py_strip raw_grade)) \<or>
      (v = (certificate_id, str_lit ''Error'', str_lit ''Error'') \<and>
       (\<forall>k\<in>set [1..retry_count + 1].
          snd (iteration (pages env k) certificate_id timeout retry_count retry_delay k)
            = Continue))"
  proof (intro allI impI)
    fix v assume "?r = Inr (Some v)"
    then consider
      (ret) "?lp = Return v" |
      (exh) "v = (certificate_id, error_str, error_str)" "?lp = Continue"
      using fetch_returns_cases by blast
    then show "(\<exists>attempt raw_name raw_grade.
          1 \<le> attempt \<and> attempt \<le> retry_count + 1 \<and>
          name_text (pages env attempt) = Inr (Some raw_name) \<and>
          grade_text (pages env attempt) = Inr (Some raw_grade) \<and>
          v = (certificate_id, py_join (str_lit '' '') (py_split raw_name),
               py_strip raw_grade)) \<or>
      (v = (certificate_id, str_lit ''Error'', str_lit ''Error'') \<and>
       (\<forall>k\<in>set [1..retry_count + 1].
          snd (iteration (pages env k) certificate_id timeout retry_count retry_delay k)
            = Continue))"
    proof cases
      case ret
      then obtain attempt where
        k: "attempt \<in> set [1..retry_count + 1]" and
        it: "snd (iteration (pages env attempt) certificate_id timeout retry_count retry_delay
                    attempt) = Return v"
        using attempts_loop_Return by blast
      from it have "snd (try_body (pages env attempt) certificate_id timeout retry_count
                           retry_delay attempt) = Inr v"
        by (rule iteration_Return)
      then have "snd (try_body (pages env attempt) certificate_id timeout retry_count
                           retry_delay attempt) = Inr (fst v, fst (snd v), snd (snd v))"
        by simp
      then obtain raw_name raw_grade where
        "name_text (pages env attempt) = Inr (Some raw_name)"
        "grade_text (pages env attempt) = Inr (Some raw_grade)"
        "fst v = certificate_id" "fst (snd v) = py_join [32] (py_split raw_name)"
        "snd (snd v) = py_strip raw_grade"
        using try_body_Inr by blast
      moreover from this have
        "v = (certificate_id, py_join (str_lit '' '') (py_split raw_name), py_strip raw_grade)"
        by (cases v) (auto simp: str_lit_space)
      moreover have "1 \<le> attempt \<and> attempt \<le> retry_count + 1" using k by simp
      ultimately show ?thesis by blast
    next
      case exh
      from exh(2) have "\<forall>k\<in>set [1..retry_count + 1].
          snd (iteration (pages env k) certificate_id timeout retry_count retry_delay k)
            = Continue"
        by (rule attempts_loop_Continue_D)
      then show ?thesis using exh(1) by (simp add: error_str_def)
    qed
  qed
  have 3: "(\<forall>e. ?r \<noteq> Inl e) \<longrightarrow>
      (\<exists>card_name grade. ?r = Inr (Some (certificate_id, card_name, grade)))"
  proof
    assume a: "\<forall>e. ?r \<noteq> Inl e"
    then obtain x where x: "?r = Inr x" by (cases ?r) auto
    with 1 obtain v where v: "x = Some v" by (cases x) auto
    with x 2 have "fst v = certificate_id" by auto
    then have "v = (certificate_id, fst (snd v), snd (snd v))" by (cases v) auto
    with x v show "\<exists>card_name grade. ?r = Inr (Some (certificate_id, card_name, grade))"
      by metis
  qed
  show ?thesis using 1 2 3 by blast
qed

theorem C10_never_returns_None_witness:
  "snd (fetch_certificate_data worker_timeout (str_lit ''A2'') 15000 1 2) \<noteq> Inr None \<and>
   (\<exists>card_name grade.
      snd (fetch_certificate_data worker_timeout (str_lit ''A2'') 15000 1 2)
        = Inr (Some (str_lit ''A2'', card_name, grade)))"
proof -
  have h: "\<forall>e. snd (fetch_certificate_data worker_timeout (str_lit ''A2'') 15000 1 2) \<noteq> Inl e"
    by (simp add: model_defs upto_rec1)
  from C10_never_returns_None [of worker_timeout "str_lit ''A2''" 15000 1 2] h
  show ?thesis by blast
qed

text \<open>
  It does not return for every input: \<open>except Exception\<close> does not catch
  \<open>CancelledError\<close> or \<open>KeyboardInterrupt\<close>, so a call that is cancelled or interrupted
  while it waits for \<open>page.goto\<close> raises.
\<close>

theorem C10_cancelled_call_counterexample:
  "snd (fetch_certificate_data
          (worker_timeout\<lparr>pages := \<lambda>k. page_timeout\<lparr>goto := Some CancelledError\<rparr>\<rparr>)
          (str_lit ''A2'') 15000 1 2) = Inl CancelledError \<and>
   snd (fetch_certificate_data
          (worker_timeout\<lparr>pages := \<lambda>k. page_timeout\<lparr>goto := Some KeyboardInterrupt\<rparr>\<rparr>)
          (str_lit ''A2'') 15000 1 2) = Inl KeyboardInterrupt"
  by (simp add: model_defs upto_rec1)

end
